theory Spec2Isabelle
  imports Complex_Main "HOL-Library.AList"
begin

section \<open>Arrays, parameters and the parameter dictionary\<close>

text \<open>
  The converter of \<^verbatim>\<open>mxfusion/inference/batch_inference_loop_lbfgs.py\<close> works on a Gluon
  parameter dictionary. An array is its shape, its numeric type, the device it lives on and
  its elements in row-major order. The element type \<open>'v\<close> is left open.
\<close>

datatype dtype = Float16 | Float32 | Float64 | UInt8 | Int8 | Int32 | Int64

datatype mx_context = Cpu nat | Gpu nat

record 'v ndarray =
  nd_shape :: "nat list"
  nd_dtype :: dtype
  nd_ctx :: mx_context
  nd_elems :: "'v list"

text \<open>\<^verbatim>\<open>data.size\<close>: the number of elements, the product of the dimensions.\<close>

definition nd_size :: "'v ndarray \<Rightarrow> nat" where
  "nd_size a = prod_list (nd_shape a)"

text \<open>
  A parameter: \<^verbatim>\<open>grad_req\<close> is the string Gluon keeps (\<^verbatim>\<open>'write'\<close>, \<^verbatim>\<open>'add'\<close> or
  \<^verbatim>\<open>'null'\<close> for a fixed parameter), \<open>p_data\<close> is \<^verbatim>\<open>val.data()\<close> and \<open>p_grad\<close> is
  \<^verbatim>\<open>val.data().grad\<close>, which is \<^verbatim>\<open>None\<close> when no gradient buffer is attached.
\<close>

record 'v parameter =
  grad_req :: string
  p_data :: "'v ndarray"
  p_grad :: "'v ndarray option"

text \<open>The dictionary is ordered; \<^verbatim>\<open>items()\<close> walks it front to back.\<close>

type_synonym 'v parameter_dict = "(string \<times> 'v parameter) list"

datatype py_error =
    IndexError
  | KeyError string
  | ValueError string
  | AttributeError
  | MXNetError

text \<open>
  The array library is outside the repository: what it does when it converts an element to
  a numeric type, and which device is the current one, are parameters of the model.
\<close>

record 'v engine =
  cast :: "dtype \<Rightarrow> 'v \<Rightarrow> 'v"
  current_context :: mx_context

section \<open>ParameterToArrayConverter\<close>

text \<open>The six lists that \<^verbatim>\<open>_get_parameter_sizes\<close> fills.\<close>

record param_sizes =
  i_start :: "nat list"
  i_end :: "nat list"
  shapes :: "nat list list"
  dtypes :: "dtype list"
  contexts :: "mx_context list"
  names :: "string list"

text \<open>
  The converter after \<^verbatim>\<open>__init__\<close>. Its \<^verbatim>\<open>parameter_dict\<close> attribute is a reference to
  the caller's dictionary; the operations below take the dictionary as their state.
\<close>

record converter = param_sizes +
  array_length :: nat

text \<open>The loop of \<^verbatim>\<open>_get_parameter_sizes\<close>, with the running index \<open>i\<close>.\<close>

fun get_parameter_sizes_loop ::
  "'v parameter_dict \<Rightarrow> nat \<Rightarrow> param_sizes \<Rightarrow> param_sizes" where
  "get_parameter_sizes_loop [] i s = s"
| "get_parameter_sizes_loop ((key, val) # rest) i s =
     (if grad_req val = ''null'' then get_parameter_sizes_loop rest i s
      else
        (let data = p_data val in
         get_parameter_sizes_loop rest (i + nd_size (p_data val))
           (s\<lparr>i_start := i_start s @ [i],
              i_end := i_end s @ [i + nd_size data],
              shapes := shapes s @ [nd_shape data],
              dtypes := dtypes s @ [nd_dtype data],
              contexts := contexts s @ [nd_ctx data],
              names := names s @ [key]\<rparr>)))"

definition get_parameter_sizes :: "'v parameter_dict \<Rightarrow> param_sizes" where
  "get_parameter_sizes param_dict =
     get_parameter_sizes_loop param_dict 0
       \<lparr>i_start = [], i_end = [], shapes = [], dtypes = [], contexts = [], names = []\<rparr>"

text \<open>
  \<^verbatim>\<open>__init__\<close>: \<^verbatim>\<open>self.i_end[-1]\<close> raises \<^verbatim>\<open>IndexError\<close> on an empty list.
\<close>

definition init :: "'v parameter_dict \<Rightarrow> py_error + converter" where
  "init parameter_dict =
     (let s = get_parameter_sizes parameter_dict in
      if i_end s = [] then Inl IndexError
      else Inr \<lparr>i_start = i_start s, i_end = i_end s, shapes = shapes s,
                dtypes = dtypes s, contexts = contexts s, names = names s,
                array_length = last (i_end s)\<rparr>)"


section \<open>Array operations used by the converter\<close>

text \<open>\<^verbatim>\<open>x[a:b]\<close> on a one-dimensional \<^verbatim>\<open>numpy\<close> array, for indices that are not negative.\<close>

definition slice :: "'a list \<Rightarrow> nat \<Rightarrow> nat \<Rightarrow> 'a list" where
  "slice x a b = drop a (take b x)"

text \<open>\<^verbatim>\<open>mx.nd.array(source, dtype=dt, ctx=cx)\<close> from a one-dimensional source.\<close>

definition nd_array :: "'v engine \<Rightarrow> 'v list \<Rightarrow> dtype \<Rightarrow> mx_context \<Rightarrow> 'v ndarray" where
  "nd_array E source dt cx =
     \<lparr>nd_shape = [length source], nd_dtype = dt, nd_ctx = cx,
      nd_elems = map (cast E dt) source\<rparr>"

text \<open>
  \<^verbatim>\<open>mx.nd.reshape(a, shp)\<close> for a shape of positive dimensions: the element count has to
  stay the same.
\<close>

definition reshape :: "'v ndarray \<Rightarrow> nat list \<Rightarrow> py_error + 'v ndarray" where
  "reshape a shp =
     (if prod_list shp = nd_size a then Inr (a\<lparr>nd_shape := shp\<rparr>) else Inl MXNetError)"

text \<open>\<^verbatim>\<open>a.reshape((-1,))\<close>: the same elements as one dimension.\<close>

definition reshape_flat :: "'v ndarray \<Rightarrow> 'v ndarray" where
  "reshape_flat a = a\<lparr>nd_shape := [nd_size a]\<rparr>"

text \<open>
  \<^verbatim>\<open>val.set_data(value)\<close>: the parameter takes the array as its value; Gluon refuses an
  array whose shape is not the parameter's. The gradient buffer stays.
\<close>

definition set_data :: "'v parameter \<Rightarrow> 'v ndarray \<Rightarrow> py_error + 'v parameter" where
  "set_data val value =
     (if nd_shape value = nd_shape (p_data val) then Inr (val\<lparr>p_data := value\<rparr>)
      else Inl MXNetError)"

text \<open>\<^verbatim>\<open>mx.nd.zeros(n)\<close>: the default numeric type on the current device.\<close>

definition zeros :: "'v::zero engine \<Rightarrow> nat \<Rightarrow> 'v ndarray" where
  "zeros E n =
     \<lparr>nd_shape = [n], nd_dtype = Float32, nd_ctx = current_context E,
      nd_elems = replicate n 0\<rparr>"

text \<open>
  \<^verbatim>\<open>x[a:b] = v\<close> on a one-dimensional array \<open>x\<close>: the elements of \<open>v\<close> are converted to
  the numeric type of \<open>x\<close>. The converter assigns values that fill the range; any other
  value, which the library would refuse or broadcast, is an error here.
\<close>

definition slice_assign ::
  "'v engine \<Rightarrow> 'v ndarray \<Rightarrow> nat \<Rightarrow> nat \<Rightarrow> 'v ndarray \<Rightarrow> py_error + 'v ndarray" where
  "slice_assign E x a b v =
     (if a \<le> b \<and> b \<le> length (nd_elems x) \<and> nd_shape v = [b - a]
         \<and> length (nd_elems v) = b - a
      then Inr (x\<lparr>nd_elems :=
                  take a (nd_elems x) @ map (cast E (nd_dtype x)) (nd_elems v)
                    @ drop b (nd_elems x)\<rparr>)
      else Inl MXNetError)"

text \<open>\<^verbatim>\<open>x.asnumpy()\<close>: the elements as a \<^verbatim>\<open>numpy\<close> vector.\<close>

definition asnumpy :: "'v ndarray \<Rightarrow> 'v list" where
  "asnumpy x = nd_elems x"

text \<open>\<^verbatim>\<open>'{}'.format(n)\<close> for an integer that is not negative: its decimal digits.\<close>

function str_nat :: "nat \<Rightarrow> string" where
  "str_nat n =
     (if n < 10 then [''0123456789'' ! n]
      else str_nat (n div 10) @ [''0123456789'' ! (n mod 10)])"
  by pat_completeness auto
termination
  by (relation "measure (\<lambda>n. n)") auto

declare str_nat.simps [simp del]

section \<open>set_values_from_array\<close>

text \<open>
  The loop over \<^verbatim>\<open>enumerate(self.names)\<close>. A failure leaves the dictionary as the writes
  before it made it, so the dictionary is returned beside the outcome.
\<close>

fun set_values_loop ::
  "'v engine \<Rightarrow> converter \<Rightarrow> 'v list \<Rightarrow> (nat \<times> string) list \<Rightarrow> 'v parameter_dict
     \<Rightarrow> py_error option \<times> 'v parameter_dict" where
  "set_values_loop E c x [] pd = (None, pd)"
| "set_values_loop E c x ((i, key) # rest) pd =
     (case map_of pd key of
        None \<Rightarrow> (Some (KeyError key), pd)
      | Some val \<Rightarrow>
          if \<not> (i < length (i_start c) \<and> i < length (i_end c) \<and> i < length (dtypes c)
                 \<and> i < length (contexts c) \<and> i < length (shapes c))
          then (Some IndexError, pd)
          else
            (case reshape
                    (nd_array E (slice x (i_start c ! i) (i_end c ! i)) (dtypes c ! i)
                       (contexts c ! i))
                    (shapes c ! i) of
               Inl e \<Rightarrow> (Some e, pd)
             | Inr value_to_set_to \<Rightarrow>
                 (case set_data val value_to_set_to of
                    Inl e \<Rightarrow> (Some e, pd)
                  | Inr val' \<Rightarrow> set_values_loop E c x rest (AList.update key val' pd))))"

definition set_values_from_array ::
  "'v engine \<Rightarrow> converter \<Rightarrow> 'v list \<Rightarrow> 'v parameter_dict
     \<Rightarrow> py_error option \<times> 'v parameter_dict" where
  "set_values_from_array E c x pd =
     (if length x \<noteq> array_length c
      then (Some (ValueError (''Expected array to be of length '' @ str_nat (array_length c)
                     @ '' but is actually length '' @ str_nat (length x))), pd)
      else set_values_loop E c x (enumerate 0 (names c)) pd)"

section \<open>extract_parameter_values_as_array and extract_parameter_gradients_as_array\<close>

text \<open>Both loops fill the buffer \<open>x\<close>; neither writes to the dictionary.\<close>

fun extract_values_loop ::
  "'v engine \<Rightarrow> converter \<Rightarrow> (nat \<times> string) list \<Rightarrow> 'v parameter_dict \<Rightarrow> 'v ndarray
     \<Rightarrow> py_error + 'v ndarray" where
  "extract_values_loop E c [] pd x = Inr x"
| "extract_values_loop E c ((i, key) # rest) pd x =
     (case map_of pd key of
        None \<Rightarrow> Inl (KeyError key)
      | Some val \<Rightarrow>
          if \<not> (i < length (i_start c) \<and> i < length (i_end c)) then Inl IndexError
          else
            (case slice_assign E x (i_start c ! i) (i_end c ! i) (reshape_flat (p_data val)) of
               Inl e \<Rightarrow> Inl e
             | Inr x' \<Rightarrow> extract_values_loop E c rest pd x'))"

text \<open>The buffer \<open>x\<close> of \<^verbatim>\<open>extract_parameter_values_as_array\<close> before \<^verbatim>\<open>asnumpy\<close>.\<close>

definition values_buffer ::
  "'v::zero engine \<Rightarrow> converter \<Rightarrow> 'v parameter_dict \<Rightarrow> py_error + 'v ndarray" where
  "values_buffer E c pd =
     extract_values_loop E c (enumerate 0 (names c)) pd (zeros E (array_length c))"

definition extract_parameter_values_as_array ::
  "'v::zero engine \<Rightarrow> converter \<Rightarrow> 'v parameter_dict
     \<Rightarrow> (py_error + 'v list) \<times> 'v parameter_dict" where
  "extract_parameter_values_as_array E c pd =
     (case values_buffer E c pd of
        Inl e \<Rightarrow> (Inl e, pd)
      | Inr x \<Rightarrow> (Inr (asnumpy x), pd))"

fun extract_gradients_loop ::
  "'v engine \<Rightarrow> converter \<Rightarrow> (nat \<times> string) list \<Rightarrow> 'v parameter_dict \<Rightarrow> 'v ndarray
     \<Rightarrow> py_error + 'v ndarray" where
  "extract_gradients_loop E c [] pd x = Inr x"
| "extract_gradients_loop E c ((i, key) # rest) pd x =
     (case map_of pd key of
        None \<Rightarrow> Inl (KeyError key)
      | Some val \<Rightarrow>
          (case p_grad val of
             None \<Rightarrow> Inl AttributeError
           | Some g \<Rightarrow>
               if \<not> (i < length (i_start c) \<and> i < length (i_end c)) then Inl IndexError
               else
                 (case slice_assign E x (i_start c ! i) (i_end c ! i) (reshape_flat g) of
                    Inl e \<Rightarrow> Inl e
                  | Inr x' \<Rightarrow> extract_gradients_loop E c rest pd x')))"

text \<open>The buffer \<open>x\<close> of \<^verbatim>\<open>extract_parameter_gradients_as_array\<close> before \<^verbatim>\<open>asnumpy\<close>.\<close>

definition gradients_buffer ::
  "'v::zero engine \<Rightarrow> converter \<Rightarrow> 'v parameter_dict \<Rightarrow> py_error + 'v ndarray" where
  "gradients_buffer E c pd =
     extract_gradients_loop E c (enumerate 0 (names c)) pd (zeros E (array_length c))"

definition extract_parameter_gradients_as_array ::
  "'v::zero engine \<Rightarrow> converter \<Rightarrow> 'v parameter_dict
     \<Rightarrow> (py_error + 'v list) \<times> 'v parameter_dict" where
  "extract_parameter_gradients_as_array E c pd =
     (case gradients_buffer E c pd of
        Inl e \<Rightarrow> (Inl e, pd)
      | Inr x \<Rightarrow> (Inr (asnumpy x), pd))"

section \<open>BatchInferenceLoopLBFGS\<close>

text \<open>
  \<^verbatim>\<open>scipy.optimize.fmin_l_bfgs_b\<close> is outside the repository. What it does with its
  callback is kept open: from the start point it is a strategy, which either returns a
  point and a value, or asks for the callback at a point and goes on with the loss and the
  gradient it gets. A strategy is a finite tree, so the optimizer returns.
\<close>

datatype 'v optimizer =
    Return "'v list" 'v
  | Evaluate "'v list" "'v \<Rightarrow> 'v list \<Rightarrow> 'v optimizer"

text \<open>
  \<^verbatim>\<open>infr_executor(mx.nd.zeros(1, ctx=ctx), *data)\<close> followed by
  \<^verbatim>\<open>loss_for_gradient.backward()\<close>, as one step on the dictionary: it may fail, and it
  gives the loss and the dictionary it leaves, in which the gradient buffers are filled.
\<close>

type_synonym 'v executor = "'v parameter_dict \<Rightarrow> (py_error + 'v) \<times> 'v parameter_dict"

text \<open>The closure \<^verbatim>\<open>f_df\<close> of \<^verbatim>\<open>run\<close>.\<close>

definition f_df ::
  "'v::zero engine \<Rightarrow> converter \<Rightarrow> 'v executor \<Rightarrow> 'v list \<Rightarrow> 'v parameter_dict
     \<Rightarrow> (py_error + 'v \<times> 'v list) \<times> 'v parameter_dict" where
  "f_df E dict_to_array infr_executor x pd =
     (case set_values_from_array E dict_to_array x pd of
        (Some e, pd1) \<Rightarrow> (Inl e, pd1)
      | (None, pd1) \<Rightarrow>
          (case infr_executor pd1 of
             (Inl e, pd2) \<Rightarrow> (Inl e, pd2)
           | (Inr loss, pd2) \<Rightarrow>
               (case extract_parameter_gradients_as_array E dict_to_array pd2 of
                  (Inl e, pd3) \<Rightarrow> (Inl e, pd3)
                | (Inr g, pd3) \<Rightarrow>
                    (Inr (cast E Float64 loss, map (cast E Float64) g), pd3))))"

text \<open>
  The call \<^verbatim>\<open>fmin_l_bfgs_b(f_df, x0=x0, ...)\<close>: the strategy is run against the callback; an
  exception of the callback ends the call.
\<close>

primrec optimize ::
  "'v optimizer \<Rightarrow> ('v list \<Rightarrow> 'v parameter_dict \<Rightarrow> (py_error + 'v \<times> 'v list) \<times> 'v parameter_dict)
     \<Rightarrow> 'v parameter_dict \<Rightarrow> (py_error + 'v list \<times> 'v) \<times> 'v parameter_dict" where
  "optimize (Return x_opt f_opt) f pd = (Inr (x_opt, f_opt), pd)"
| "optimize (Evaluate x k) f pd =
     (case f x pd of
        (Inl e, pd') \<Rightarrow> (Inl e, pd')
      | (Inr (l, g), pd') \<Rightarrow> optimize (k l g) f pd')"

text \<open>
  \<^verbatim>\<open>BatchInferenceLoopLBFGS.run\<close>. The arguments \<^verbatim>\<open>data\<close> and \<^verbatim>\<open>ctx\<close> are inside the
  executor; \<^verbatim>\<open>optimizer\<close>, \<^verbatim>\<open>learning_rate\<close> and \<^verbatim>\<open>logger\<close> are not used. The function
  ends after the call of the optimizer and returns \<^verbatim>\<open>None\<close>.
\<close>

definition run ::
  "'v::zero engine \<Rightarrow> ('v list \<Rightarrow> int \<Rightarrow> int \<Rightarrow> 'v optimizer) \<Rightarrow> 'v executor
     \<Rightarrow> 'v parameter_dict \<Rightarrow> int \<Rightarrow> bool \<Rightarrow> (py_error + unit) \<times> 'v parameter_dict" where
  "run E fmin_l_bfgs_b infr_executor param_dict max_iter verbose =
     (case init param_dict of
        Inl e \<Rightarrow> (Inl e, param_dict)
      | Inr dict_to_array \<Rightarrow>
          (case extract_parameter_values_as_array E dict_to_array param_dict of
             (Inl e, pd0) \<Rightarrow> (Inl e, pd0)
           | (Inr x0, pd0) \<Rightarrow>
               (case optimize (fmin_l_bfgs_b x0 max_iter (if verbose then 1 else 0))
                       (f_df E dict_to_array infr_executor) pd0 of
                  (Inl e, pd') \<Rightarrow> (Inl e, pd')
                | (Inr (x_opt, f_opt), pd') \<Rightarrow> (Inr (), pd'))))"

section \<open>Notions used in the statements\<close>

text \<open>The trainable entries of a dictionary, in iteration order.\<close>

definition trainable :: "'v parameter_dict \<Rightarrow> 'v parameter_dict" where
  "trainable pd = filter (\<lambda>(key, val). grad_req val \<noteq> ''null'') pd"

text \<open>
  Cumulative offsets of a list of sizes from a first index: where each segment starts and
  where it ends.
\<close>

fun starts :: "nat \<Rightarrow> nat list \<Rightarrow> nat list" where
  "starts i [] = []"
| "starts i (n # ns) = i # starts (i + n) ns"

fun ends :: "nat \<Rightarrow> nat list \<Rightarrow> nat list" where
  "ends i [] = []"
| "ends i (n # ns) = (i + n) # ends (i + n) ns"

definition sizes_of :: "'v parameter_dict \<Rightarrow> nat list" where
  "sizes_of pd = map (\<lambda>(key, val). nd_size (p_data val)) (trainable pd)"

subsection \<open>A concrete dictionary\<close>

text \<open>
  Two trainable parameters of shapes \<open>(2,)\<close> and \<open>(1,1)\<close> and a fixed one of shape
  \<open>(3,)\<close>, with real numbers as elements.
\<close>

definition param_a :: "real parameter" where
  "param_a = \<lparr>grad_req = ''write'',
     p_data = \<lparr>nd_shape = [2], nd_dtype = Float32, nd_ctx = Cpu 0, nd_elems = [5, 6]\<rparr>,
     p_grad = Some \<lparr>nd_shape = [2], nd_dtype = Float32, nd_ctx = Cpu 0,
                     nd_elems = [1 / 10, 2 / 10]\<rparr>\<rparr>"

definition param_b :: "real parameter" where
  "param_b = \<lparr>grad_req = ''write'',
     p_data = \<lparr>nd_shape = [1, 1], nd_dtype = Float64, nd_ctx = Gpu 0, nd_elems = [4]\<rparr>,
     p_grad = Some \<lparr>nd_shape = [1, 1], nd_dtype = Float64, nd_ctx = Gpu 0,
                     nd_elems = [3 / 10]\<rparr>\<rparr>"

definition fixed_c :: "real parameter" where
  "fixed_c = \<lparr>grad_req = ''null'',
     p_data = \<lparr>nd_shape = [3], nd_dtype = Float32, nd_ctx = Cpu 0, nd_elems = [7, 8, 9]\<rparr>,
     p_grad = None\<rparr>"

definition example_dict :: "real parameter_dict" where
  "example_dict = [(''a'', param_a), (''b'', param_b), (''c'', fixed_c)]"

definition example_converter :: converter where
  "example_converter =
     \<lparr>i_start = [0, 2], i_end = [2, 3], shapes = [[2], [1, 1]], dtypes = [Float32, Float64],
      contexts = [Cpu 0, Gpu 0], names = [''a'', ''b''], array_length = 3\<rparr>"

text \<open>
  An engine for concrete runs: conversion to an integer type drops the fractional part,
  conversion to a floating type is taken as exact, and the current device is \<^verbatim>\<open>cpu(0)\<close>.
\<close>

definition is_integer_dtype :: "dtype \<Rightarrow> bool" where
  "is_integer_dtype d = (d = UInt8 \<or> d = Int8 \<or> d = Int32 \<or> d = Int64)"

definition truncating_engine :: "real engine" where
  "truncating_engine =
     \<lparr>cast = (\<lambda>d x. if is_integer_dtype d
                       then of_int (if x < 0 then \<lceil>x\<rceil> else \<lfloor>x\<rfloor>) else x),
      current_context = Cpu 0\<rparr>"

text \<open>
  The array \<^verbatim>\<open>value_to_set_to\<close> that \<^verbatim>\<open>set_values_from_array\<close> builds for record \<open>j\<close>.
\<close>

definition written_array :: "'v engine \<Rightarrow> converter \<Rightarrow> 'v list \<Rightarrow> nat \<Rightarrow> 'v ndarray" where
  "written_array E c x j =
     \<lparr>nd_shape = shapes c ! j, nd_dtype = dtypes c ! j, nd_ctx = contexts c ! j,
      nd_elems = map (cast E (dtypes c ! j)) (slice x (i_start c ! j) (i_end c ! j))\<rparr>"

text \<open>
  The dictionary in which every parameter that has a gradient buffer shows that buffer as
  its value.
\<close>

definition grad_view :: "'v parameter_dict \<Rightarrow> 'v parameter_dict" where
  "grad_view pd =
     map (\<lambda>(key, val). (key, case p_grad val of None \<Rightarrow> val | Some g \<Rightarrow> val\<lparr>p_data := g\<rparr>)) pd"

text \<open>
  What the array library guarantees of an array: as many elements as its shape says. A
  dictionary has distinct keys, and a trainable parameter has a gradient buffer of the
  shape of its value.
\<close>

definition wf_ndarray :: "'v ndarray \<Rightarrow> bool" where
  "wf_ndarray a = (length (nd_elems a) = nd_size a)"

definition wf_parameter :: "'v parameter \<Rightarrow> bool" where
  "wf_parameter val =
     (wf_ndarray (p_data val)
      \<and> (grad_req val = ''null''
         \<or> (case p_grad val of
               None \<Rightarrow> False
             | Some g \<Rightarrow> wf_ndarray g \<and> nd_shape g = nd_shape (p_data val))))"

definition wf_dict :: "'v parameter_dict \<Rightarrow> bool" where
  "wf_dict pd = (distinct (map fst pd) \<and> list_all (\<lambda>(key, val). wf_parameter val) pd)"

text \<open>The numeric type recorded for each position of the flat vector.\<close>

definition element_dtypes :: "converter \<Rightarrow> dtype list" where
  "element_dtypes c =
     concat (map (\<lambda>(a, b, d). replicate (b - a) d)
               (zip (i_start c) (zip (i_end c) (dtypes c))))"

text \<open>The elements of a parameter's gradient buffer.\<close>

definition grad_elems :: "'v parameter \<Rightarrow> 'v list" where
  "grad_elems val = (case p_grad val of None \<Rightarrow> [] | Some g \<Rightarrow> nd_elems g)"

subsection \<open>A dictionary with an integer parameter\<close>

definition int_param :: "real parameter" where
  "int_param = \<lparr>grad_req = ''write'',
     p_data = \<lparr>nd_shape = [1], nd_dtype = Int32, nd_ctx = Cpu 0, nd_elems = [0]\<rparr>,
     p_grad = Some \<lparr>nd_shape = [1], nd_dtype = Int32, nd_ctx = Cpu 0, nd_elems = [0]\<rparr>\<rparr>"

definition int_dict :: "real parameter_dict" where
  "int_dict = [(''w'', int_param)]"

definition int_converter :: converter where
  "int_converter =
     \<lparr>i_start = [0], i_end = [1], shapes = [[1]], dtypes = [Int32], contexts = [Cpu 0],
      names = [''w''], array_length = 1\<rparr>"

subsection \<open>Runs of the optimizer\<close>

text \<open>The points at which a strategy run against a callback asks for the callback, in order.\<close>

primrec evaluated ::
  "'v optimizer \<Rightarrow> ('v list \<Rightarrow> 'v parameter_dict \<Rightarrow> (py_error + 'v \<times> 'v list) \<times> 'v parameter_dict)
     \<Rightarrow> 'v parameter_dict \<Rightarrow> 'v list list" where
  "evaluated (Return x_opt f_opt) f pd = []"
| "evaluated (Evaluate x k) f pd =
     x # (case f x pd of
            (Inl e, pd') \<Rightarrow> []
          | (Inr (l, g), pd') \<Rightarrow> evaluated (k l g) f pd')"

text \<open>The same strategy with another point and value returned at the end.\<close>

primrec relabel :: "('v list \<Rightarrow> 'v \<Rightarrow> 'v list \<times> 'v) \<Rightarrow> 'v optimizer \<Rightarrow> 'v optimizer" where
  "relabel h (Return x_opt f_opt) = (case h x_opt f_opt of (x', f') \<Rightarrow> Return x' f')"
| "relabel h (Evaluate x k) = Evaluate x (\<lambda>l g. relabel h (k l g))"

text \<open>
  An executor that leaves the dictionary alone and reports the loss 0, and an optimizer
  that asks for its start point, then for the point \<open>[9, 9, 9]\<close>, and returns the start
  point.
\<close>

definition example_executor :: "real executor" where
  "example_executor pd = (Inr 0, pd)"

definition example_fmin :: "real list \<Rightarrow> int \<Rightarrow> int \<Rightarrow> real optimizer" where
  "example_fmin x0 maxiter disp =
     Evaluate x0 (\<lambda>l g. Evaluate [9, 9, 9] (\<lambda>l' g'. Return x0 l))"

definition example_dict_after :: "real parameter_dict" where
  "example_dict_after =
     [(''a'', param_a\<lparr>p_data := (p_data param_a)\<lparr>nd_elems := [9, 9]\<rparr>\<rparr>),
      (''b'', param_b\<lparr>p_data := (p_data param_b)\<lparr>nd_elems := [9]\<rparr>\<rparr>),
      (''c'', fixed_c)]"

section \<open>Construction\<close>

lemma trainable_Cons:
  "trainable ((key, val) # rest) =
     (if grad_req val = ''null'' then trainable rest else (key, val) # trainable rest)"
  by (simp add: trainable_def)

lemma loop_eq:
  "get_parameter_sizes_loop pd i s =
     s\<lparr>i_start := i_start s @ starts i (sizes_of pd),
        i_end := i_end s @ ends i (sizes_of pd),
        shapes := shapes s @ map (\<lambda>(key, val). nd_shape (p_data val)) (trainable pd),
        dtypes := dtypes s @ map (\<lambda>(key, val). nd_dtype (p_data val)) (trainable pd),
        contexts := contexts s @ map (\<lambda>(key, val). nd_ctx (p_data val)) (trainable pd),
        names := names s @ map fst (trainable pd)\<rparr>"
proof (induction pd i s rule: get_parameter_sizes_loop.induct)
  case (1 i s)
  then show ?case by (simp add: sizes_of_def trainable_def)
next
  case (2 key val rest i s)
  then show ?case
    by (simp add: sizes_of_def trainable_Cons Let_def)
qed

lemma length_starts [simp]: "length (starts i ns) = length ns"
  by (induction ns arbitrary: i) simp_all

lemma length_ends [simp]: "length (ends i ns) = length ns"
  by (induction ns arbitrary: i) simp_all

lemma starts_nth: "j < length ns \<Longrightarrow> starts i ns ! j = i + sum_list (take j ns)"
  by (induction ns arbitrary: i j) (auto simp: nth_Cons' less_Suc_eq_0_disj take_Cons')

lemma ends_nth: "j < length ns \<Longrightarrow> ends i ns ! j = i + sum_list (take (Suc j) ns)"
  by (induction ns arbitrary: i j) (auto simp: nth_Cons' less_Suc_eq_0_disj take_Cons')

lemma ends_Nil_iff [simp]: "ends i ns = [] \<longleftrightarrow> ns = []"
  by (cases ns) simp_all

lemma last_ends: "ns \<noteq> [] \<Longrightarrow> last (ends i ns) = i + sum_list ns"
  by (induction ns arbitrary: i) (auto simp: add.assoc)

lemma get_parameter_sizes_eq:
  "get_parameter_sizes pd =
     \<lparr>i_start = starts 0 (sizes_of pd), i_end = ends 0 (sizes_of pd),
      shapes = map (\<lambda>(key, val). nd_shape (p_data val)) (trainable pd),
      dtypes = map (\<lambda>(key, val). nd_dtype (p_data val)) (trainable pd),
      contexts = map (\<lambda>(key, val). nd_ctx (p_data val)) (trainable pd),
      names = map fst (trainable pd)\<rparr>"
  by (simp add: get_parameter_sizes_def loop_eq)

text \<open>What \<^verbatim>\<open>__init__\<close> computes, in closed form.\<close>

lemma init_eq:
  "init pd =
     (if trainable pd = [] then Inl IndexError
      else Inr \<lparr>i_start = starts 0 (sizes_of pd), i_end = ends 0 (sizes_of pd),
                shapes = map (\<lambda>(key, val). nd_shape (p_data val)) (trainable pd),
                dtypes = map (\<lambda>(key, val). nd_dtype (p_data val)) (trainable pd),
                contexts = map (\<lambda>(key, val). nd_ctx (p_data val)) (trainable pd),
                names = map fst (trainable pd),
                array_length = sum_list (sizes_of pd)\<rparr>)"
  by (simp add: init_def get_parameter_sizes_eq Let_def last_ends sizes_of_def)

lemmas example_defs = example_dict_def param_a_def param_b_def fixed_c_def

lemma trainable_example [simp]:
  "trainable example_dict = [(''a'', param_a), (''b'', param_b)]"
  by (simp add: trainable_def example_defs)

text \<open>
  C3. The claim: construction has no error conditions, and a dictionary with no trainable
  parameter (empty, or every parameter fixed) gives a converter of length 0. The code:
  \<^verbatim>\<open>self.i_end[-1]\<close> is evaluated on the empty list and raises \<^verbatim>\<open>IndexError\<close>, for the
  empty dictionary and for one whose only parameter is fixed.
\<close>

theorem init_without_trainable_parameter:
  "init ([] :: real parameter_dict) = Inl IndexError
   \<and> init [(''c'', fixed_c)] = Inl IndexError"
  by (simp add: init_def get_parameter_sizes_def fixed_c_def)

text \<open>The layout of a converter that \<^verbatim>\<open>__init__\<close> has built.\<close>

lemma init_layout:
  assumes "init pd = Inr c"
  shows "names c = map fst (trainable pd)"
    and "shapes c = map (\<lambda>(key, val). nd_shape (p_data val)) (trainable pd)"
    and "array_length c = sum_list (map prod_list (shapes c))"
    and "length (i_start c) = length (trainable pd)"
    and "length (i_end c) = length (trainable pd)"
    and "i_start c ! 0 = 0"
    and "Suc j < length (trainable pd) \<Longrightarrow> i_start c ! Suc j = i_end c ! j"
    and "j < length (trainable pd) \<Longrightarrow> i_start c ! j \<le> i_end c ! j"
    and "j < length (trainable pd) \<Longrightarrow> i_end c ! j - i_start c ! j = prod_list (shapes c ! j)"
    and "array_length c = i_end c ! (length (trainable pd) - 1)"
proof -
  let ?ns = "sizes_of pd"
  from assms have ne: "trainable pd \<noteq> []"
    and c: "c = \<lparr>i_start = starts 0 ?ns, i_end = ends 0 ?ns,
                shapes = map (\<lambda>(key, val). nd_shape (p_data val)) (trainable pd),
                dtypes = map (\<lambda>(key, val). nd_dtype (p_data val)) (trainable pd),
                contexts = map (\<lambda>(key, val). nd_ctx (p_data val)) (trainable pd),
                names = map fst (trainable pd),
                array_length = sum_list ?ns\<rparr>"
    by (auto simp: init_eq split: if_splits)
  have len: "length ?ns = length (trainable pd)"
    by (simp add: sizes_of_def)
  have ns: "?ns = map prod_list (map (\<lambda>(key, val). nd_shape (p_data val)) (trainable pd))"
    by (simp add: sizes_of_def nd_size_def split_def)
  have pos: "0 < length ?ns"
    using ne len by simp
  show "names c = map fst (trainable pd)"
    and "shapes c = map (\<lambda>(key, val). nd_shape (p_data val)) (trainable pd)"
    and "length (i_start c) = length (trainable pd)"
    and "length (i_end c) = length (trainable pd)"
    by (simp_all add: c len)
  show "array_length c = sum_list (map prod_list (shapes c))"
    using ns by (simp add: c)
  show "i_start c ! 0 = 0"
    using pos by (simp add: c starts_nth)
  show "i_start c ! Suc j = i_end c ! j" if "Suc j < length (trainable pd)"
    using that len by (simp add: c starts_nth ends_nth)
  show "i_start c ! j \<le> i_end c ! j" if "j < length (trainable pd)"
    using that len by (simp add: c starts_nth ends_nth take_Suc_conv_app_nth)
  show "i_end c ! j - i_start c ! j = prod_list (shapes c ! j)" if "j < length (trainable pd)"
    using that len
    by (simp add: c starts_nth ends_nth take_Suc_conv_app_nth sizes_of_def nd_size_def split_def)
  show "array_length c = i_end c ! (length (trainable pd) - 1)"
    using pos len by (simp add: c ends_nth)
qed

lemma init_example: "init example_dict = Inr example_converter"
  by (simp add: init_eq example_converter_def sizes_of_def nd_size_def param_a_def param_b_def)

text \<open>
  C4. A dictionary with at least one trainable entry has a converter. For every converter
  built from a dictionary: the names and shapes recorded are those of the trainable entries
  in iteration order; the length is the sum over the records of the product of the shape;
  there is one range per trainable entry; the first range starts at 0, each later range
  starts where the one before ends, and every range is as wide as the element count of its
  shape. The length is the end of the last range.
\<close>

theorem converter_layout:
  "(trainable pd \<noteq> [] \<longrightarrow> (\<exists>c. init pd = Inr c))
   \<and> (\<forall>c. init pd = Inr c \<longrightarrow>
          names c = map fst (trainable pd)
        \<and> shapes c = map (\<lambda>(key, val). nd_shape (p_data val)) (trainable pd)
        \<and> array_length c = sum_list (map prod_list (shapes c))
        \<and> length (i_start c) = length (trainable pd)
        \<and> length (i_end c) = length (trainable pd)
        \<and> i_start c ! 0 = 0
        \<and> (\<forall>j. Suc j < length (trainable pd) \<longrightarrow> i_start c ! Suc j = i_end c ! j)
        \<and> (\<forall>j < length (trainable pd).
              i_start c ! j \<le> i_end c ! j
              \<and> i_end c ! j - i_start c ! j = prod_list (shapes c ! j))
        \<and> array_length c = i_end c ! (length (trainable pd) - 1))"
proof (intro conjI allI impI)
  assume "trainable pd \<noteq> []"
  then show "\<exists>c. init pd = Inr c"
    by (simp add: init_eq)
qed (rule init_layout; assumption)+

theorem converter_layout_witness:
  "trainable example_dict \<noteq> [] \<and> init example_dict = Inr example_converter
   \<and> names example_converter = [''a'', ''b'']
   \<and> shapes example_converter = [[2], [1, 1]]
   \<and> array_length example_converter = 3
   \<and> i_start example_converter ! 0 = 0
   \<and> i_start example_converter ! 1 = i_end example_converter ! 0
   \<and> i_end example_converter ! 1 - i_start example_converter ! 1 = 1
   \<and> i_end example_converter ! 1 = 3"
proof -
  have h: "trainable example_dict \<noteq> []"
    by simp
  from converter_layout [of example_dict] init_example
  have c: "names example_converter = map fst (trainable example_dict)"
    "shapes example_converter
       = map (\<lambda>(key, val). nd_shape (p_data val)) (trainable example_dict)"
    "array_length example_converter = sum_list (map prod_list (shapes example_converter))"
    "\<forall>j. Suc j < length (trainable example_dict)
        \<longrightarrow> i_start example_converter ! Suc j = i_end example_converter ! j"
    "\<forall>j < length (trainable example_dict).
        i_start example_converter ! j \<le> i_end example_converter ! j
        \<and> i_end example_converter ! j - i_start example_converter ! j
            = prod_list (shapes example_converter ! j)"
    "i_start example_converter ! 0 = 0"
    "array_length example_converter = i_end example_converter ! (length (trainable example_dict) - 1)"
    by blast+
  from c(4) have s: "i_start example_converter ! 1 = i_end example_converter ! 0"
    by simp
  from c(5) have w: "i_end example_converter ! 1 - i_start example_converter ! 1
            = prod_list (shapes example_converter ! 1)"
    by simp
  from c(1,2,3,6,7) s w h show ?thesis
    by (simp add: init_example param_a_def param_b_def)
qed

section \<open>Writing a flat vector\<close>

text \<open>
  C2. For every converter, dictionary and vector whose length is not \<open>array_length\<close>,
  \<^verbatim>\<open>set_values_from_array\<close> raises \<^verbatim>\<open>ValueError\<close> with the message that gives the
  expected and the actual length in decimal, and the dictionary is the one it was given: the
  check comes before the loop, so nothing is written, truncated or padded.
\<close>

theorem set_values_length_mismatch:
  assumes "length x \<noteq> array_length c"
  shows "set_values_from_array E c x pd =
           (Some (ValueError (''Expected array to be of length '' @ str_nat (array_length c)
                    @ '' but is actually length '' @ str_nat (length x))), pd)"
  using assms by (simp add: set_values_from_array_def)

theorem set_values_length_mismatch_witness:
  "length [1, 2 :: real] \<noteq> array_length example_converter
   \<and> set_values_from_array truncating_engine example_converter [1, 2] example_dict =
       (Some (ValueError ''Expected array to be of length 3 but is actually length 2''),
        example_dict)
   \<and> length [1, 2, 3, 4 :: real] \<noteq> array_length example_converter
   \<and> set_values_from_array truncating_engine example_converter [1, 2, 3, 4] example_dict =
       (Some (ValueError ''Expected array to be of length 3 but is actually length 4''),
        example_dict)"
proof -
  have h2: "length [1, 2 :: real] \<noteq> array_length example_converter"
    and h4: "length [1, 2, 3, 4 :: real] \<noteq> array_length example_converter"
    by (simp_all add: example_converter_def)
  have a: "array_length example_converter = 3"
    by (simp add: example_converter_def)
  show ?thesis
    using h2 h4
      set_values_length_mismatch [OF h2, of truncating_engine example_dict]
      set_values_length_mismatch [OF h4, of truncating_engine example_dict]
    by (simp add: a str_nat.simps)
qed

text \<open>
  The loop of \<^verbatim>\<open>set_values_from_array\<close> from position \<open>k\<close> on, when the records fit the
  dictionary: it ends without error, keeps the keys, gives each remaining name its array and
  leaves every other key alone.
\<close>

lemma set_values_loop_result:
  assumes "distinct ks"
    and "length (i_start c) = length ks" and "length (i_end c) = length ks"
    and "length (dtypes c) = length ks" and "length (contexts c) = length ks"
    and "length (shapes c) = length ks"
    and "\<forall>j < length ks. \<exists>val. map_of pd (ks ! j) = Some val
           \<and> nd_shape (p_data val) = shapes c ! j
           \<and> prod_list (shapes c ! j) = length (slice x (i_start c ! j) (i_end c ! j))"
    and "k \<le> length ks"
  shows "\<exists>pd'. set_values_loop E c x (enumerate k (drop k ks)) pd = (None, pd')
           \<and> map fst pd' = map fst pd
           \<and> (\<forall>j. k \<le> j \<and> j < length ks \<longrightarrow>
                 map_of pd' (ks ! j)
                   = map_option (\<lambda>val. val\<lparr>p_data := written_array E c x j\<rparr>) (map_of pd (ks ! j)))
           \<and> (\<forall>key. key \<notin> set (drop k ks) \<longrightarrow> map_of pd' key = map_of pd key)"
  using assms
proof (induction "length ks - k" arbitrary: k pd)
  case 0
  then show ?case by auto
next
  case (Suc m)
  then have k: "k < length ks" by simp
  let ?key = "ks ! k"
  from Suc.prems(7) k obtain val where val: "map_of pd ?key = Some val"
    "nd_shape (p_data val) = shapes c ! k"
    "prod_list (shapes c ! k) = length (slice x (i_start c ! k) (i_end c ! k))"
    by blast
  let ?val' = "val\<lparr>p_data := written_array E c x k\<rparr>"
  let ?pd1 = "AList.update ?key ?val' pd"
  have drop: "drop k ks = ?key # drop (Suc k) ks"
    using k by (simp add: Cons_nth_drop_Suc)
  have resh: "reshape (nd_array E (slice x (i_start c ! k) (i_end c ! k)) (dtypes c ! k)
                 (contexts c ! k)) (shapes c ! k) = Inr (written_array E c x k)"
    using val(3) by (simp add: reshape_def nd_array_def nd_size_def written_array_def)
  have sd: "set_data val (written_array E c x k) = Inr ?val'"
    using val(2) by (simp add: set_data_def written_array_def)
  have step: "set_values_loop E c x (enumerate k (drop k ks)) pd
      = set_values_loop E c x (enumerate (Suc k) (drop (Suc k) ks)) ?pd1"
    using k Suc.prems val(1) resh sd by (simp add: drop)
  have notin: "?key \<notin> set (drop (Suc k) ks)"
    using Suc.prems(1) k drop by (metis distinct.simps(2) distinct_drop)
  have neq: "ks ! j \<noteq> ?key" if "j < length ks" "j \<noteq> k" for j
    using that k Suc.prems(1) by (simp add: nth_eq_iff_index_eq)
  have pd1: "map_of ?pd1 = (map_of pd)(?key \<mapsto> ?val')"
    by (simp add: update_conv')
  have pre: "\<forall>j < length ks. \<exists>val. map_of ?pd1 (ks ! j) = Some val
           \<and> nd_shape (p_data val) = shapes c ! j
           \<and> prod_list (shapes c ! j) = length (slice x (i_start c ! j) (i_end c ! j))"
  proof (intro allI impI)
    fix j assume j: "j < length ks"
    show "\<exists>val. map_of ?pd1 (ks ! j) = Some val
           \<and> nd_shape (p_data val) = shapes c ! j
           \<and> prod_list (shapes c ! j) = length (slice x (i_start c ! j) (i_end c ! j))"
    proof (cases "j = k")
      case True
      then show ?thesis using val by (simp add: update_conv' written_array_def)
    next
      case False
      then show ?thesis using Suc.prems(7) j neq [OF j] by (simp add: update_conv')
    qed
  qed
  have m: "m = length ks - Suc k" using Suc.hyps(2) by simp
  from Suc.hyps(1) [OF m Suc.prems(1-6) pre] k
  obtain pd' where pd': "set_values_loop E c x (enumerate (Suc k) (drop (Suc k) ks)) ?pd1 = (None, pd')"
    "map fst pd' = map fst ?pd1"
    "\<forall>j. Suc k \<le> j \<and> j < length ks \<longrightarrow>
                 map_of pd' (ks ! j)
                   = map_option (\<lambda>val. val\<lparr>p_data := written_array E c x j\<rparr>) (map_of ?pd1 (ks ! j))"
    "\<forall>key. key \<notin> set (drop (Suc k) ks) \<longrightarrow> map_of pd' key = map_of ?pd1 key"
    by (metis Suc_leI)
  have keys: "map fst ?pd1 = map fst pd"
    using val(1) by (simp add: update_keys map_of_eq_None_iff [symmetric] del: map_of_eq_None_iff)
  have a: "map_of pd' (ks ! j)
             = map_option (\<lambda>val. val\<lparr>p_data := written_array E c x j\<rparr>) (map_of pd (ks ! j))"
    if "k \<le> j" "j < length ks" for j
  proof (cases "j = k")
    case True
    then show ?thesis using pd'(4) notin val(1) by (simp add: update_conv')
  next
    case False
    then show ?thesis using pd'(3) that neq [of j] by (simp add: update_conv')
  qed
  have b: "map_of pd' key = map_of pd key" if "key \<notin> set (drop k ks)" for key
    using that pd'(4) by (simp add: drop update_conv')
  show ?case
    using step pd'(1,2) keys a b by simp
qed

section \<open>Reading a flat vector\<close>

lemma map_of_grad_view:
  "map_of (grad_view pd) key =
     map_option (\<lambda>val. case p_grad val of None \<Rightarrow> val | Some g \<Rightarrow> val\<lparr>p_data := g\<rparr>)
       (map_of pd key)"
  by (induction pd) (auto simp: grad_view_def split: option.splits)

text \<open>
  The gradient loop is the value loop run on the dictionary in which every parameter shows
  its gradient buffer as its value, as long as the named parameters have such a buffer.
\<close>

lemma gradients_loop_as_values_loop:
  assumes "\<forall>(i, key) \<in> set L. \<forall>val. map_of pd key = Some val \<longrightarrow> p_grad val \<noteq> None"
  shows "extract_gradients_loop E c L pd x = extract_values_loop E c L (grad_view pd) x"
  using assms
proof (induction L arbitrary: x)
  case Nil
  then show ?case by simp
next
  case (Cons p L)
  obtain i key where p: "p = (i, key)" by (cases p)
  show ?case
  proof (cases "map_of pd key")
    case None
    then show ?thesis by (simp add: p map_of_grad_view)
  next
    case (Some val)
    with Cons.prems p obtain g where g: "p_grad val = Some g" by auto
    from Cons have IH: "extract_gradients_loop E c L pd x' = extract_values_loop E c L (grad_view pd) x'" for x'
      by simp
    show ?thesis
      by (simp add: p map_of_grad_view Some g IH split: sum.splits)
  qed
qed

lemma sum_list_take_le: "sum_list (take m ns) \<le> sum_list (ns :: nat list)"
  by (induction ns arbitrary: m) (auto simp: take_Cons' )

text \<open>
  The value loop from position \<open>k\<close> on, for contiguous ranges of widths \<open>ns\<close> that fit
  the arrays of the named parameters: the buffer keeps what lies before the range of record
  \<open>k\<close> and holds the converted elements of the remaining parameters after it.
\<close>

lemma extract_values_loop_layout:
  assumes "i_start c = starts 0 ns" and "i_end c = ends 0 ns" and "length ks = length ns"
    and "\<forall>j < length ns. \<exists>val. map_of pd (ks ! j) = Some val
            \<and> nd_size (p_data val) = ns ! j \<and> length (nd_elems (p_data val)) = ns ! j"
    and "k \<le> length ns"
    and "length (nd_elems x) = sum_list ns"
  shows "extract_values_loop E c (enumerate k (drop k ks)) pd x =
           Inr (x\<lparr>nd_elems := take (sum_list (take k ns)) (nd_elems x)
                  @ concat (map (\<lambda>j. map (cast E (nd_dtype x))
                                        (nd_elems (p_data (the (map_of pd (ks ! j))))))
                              [k ..< length ns])\<rparr>)"
  using assms(5,6)
proof (induction "length ns - k" arbitrary: k x)
  case 0
  then show ?case using assms(3) by simp
next
  case (Suc m)
  then have k: "k < length ns" by simp
  let ?a = "sum_list (take k ns)" and ?b = "sum_list (take (Suc k) ns)"
  let ?X = "nd_elems x"
  from assms(4) k obtain val where val: "map_of pd (ks ! k) = Some val"
    "nd_size (p_data val) = ns ! k" "length (nd_elems (p_data val)) = ns ! k"
    by blast
  let ?V = "map (cast E (nd_dtype x)) (nd_elems (p_data val))"
  have b: "?b = ?a + ns ! k"
    using k by (simp add: take_Suc_conv_app_nth)
  have ble: "?b \<le> length ?X"
    using Suc.prems(2) sum_list_take_le [of "Suc k" ns] by simp
  have drop: "drop k ks = ks ! k # drop (Suc k) ks"
    using k assms(3) by (simp add: Cons_nth_drop_Suc)
  let ?x' = "x\<lparr>nd_elems := take ?a ?X @ ?V @ drop ?b ?X\<rparr>"
  have sa: "slice_assign E x ?a ?b (reshape_flat (p_data val)) = Inr ?x'"
    using b ble val by (simp add: slice_assign_def reshape_flat_def)
  have len': "length (nd_elems ?x') = sum_list ns"
    using b ble val(3) Suc.prems(2) by simp
  have m: "m = length ns - Suc k" using Suc.hyps(2) by simp
  have k': "Suc k \<le> length ns" using k by simp
  note IH = Suc.hyps(1) [OF m k' len']
  have tk: "take ?b (nd_elems ?x') = take ?a ?X @ ?V"
    using b ble val(3) by simp
  have step: "extract_values_loop E c (enumerate k (drop k ks)) pd x
      = extract_values_loop E c (enumerate (Suc k) (drop (Suc k) ks)) pd ?x'"
    using k assms(1,2,3) val(1) sa
    by (simp add: drop starts_nth ends_nth del: take_Suc)
  show ?case
    unfolding step IH tk using k val(1)
    by (simp add: upt_conv_Cons)
qed

section \<open>A converter and the dictionary it was built from\<close>

lemma init_fields:
  assumes "init pd = Inr c"
  shows "i_start c = starts 0 (sizes_of pd)" and "i_end c = ends 0 (sizes_of pd)"
    and "shapes c = map (\<lambda>(key, val). nd_shape (p_data val)) (trainable pd)"
    and "dtypes c = map (\<lambda>(key, val). nd_dtype (p_data val)) (trainable pd)"
    and "contexts c = map (\<lambda>(key, val). nd_ctx (p_data val)) (trainable pd)"
    and "names c = map fst (trainable pd)"
    and "array_length c = sum_list (sizes_of pd)"
    and "trainable pd \<noteq> []"
  using assms by (auto simp: init_eq split: if_splits)

lemma length_sizes_of [simp]: "length (sizes_of pd) = length (trainable pd)"
  by (simp add: sizes_of_def)

lemma distinct_trainable_keys:
  "distinct (map fst pd) \<Longrightarrow> distinct (map fst (trainable pd))"
  by (simp add: trainable_def distinct_map_filter)

lemma trainable_lookup:
  assumes "distinct (map fst pd)" and "j < length (trainable pd)"
  shows "map_of pd (fst (trainable pd ! j)) = Some (snd (trainable pd ! j))"
proof -
  have "trainable pd ! j \<in> set pd"
    using assms(2) nth_mem [of j "trainable pd"] by (auto simp: trainable_def)
  then show ?thesis
    using assms by (simp add: map_of_is_SomeI [of pd "fst (trainable pd ! j)"])
qed

lemma trainable_nth_grad_req:
  "j < length (trainable pd) \<Longrightarrow> grad_req (snd (trainable pd ! j)) \<noteq> ''null''"
  using nth_mem [of j "trainable pd"] by (auto simp: trainable_def)

lemma trainable_nth_wf:
  "wf_dict pd \<Longrightarrow> j < length (trainable pd) \<Longrightarrow> wf_parameter (snd (trainable pd ! j))"
  using nth_mem [of j "trainable pd"] by (auto simp: trainable_def wf_dict_def list_all_iff)

lemma fixed_not_named:
  assumes "distinct (map fst pd)" and "map_of pd key = Some val" and "grad_req val = ''null''"
  shows "key \<notin> fst ` set (trainable pd)"
proof
  assume "key \<in> fst ` set (trainable pd)"
  then obtain val' where v: "(key, val') \<in> set pd" "grad_req val' \<noteq> ''null''"
    by (auto simp: trainable_def)
  with assms(1) have "map_of pd key = Some val'" by (simp add: map_of_is_SomeI)
  with assms(2,3) v(2) show False by simp
qed

lemma map_upt_nth:
  assumes "\<forall>j < length ts. F j = G (snd (ts ! j))"
  shows "map F [0 ..< length ts] = map (\<lambda>(key, val). G val) ts"
proof -
  have "map F [0 ..< length ts] = map (\<lambda>j. G (snd (ts ! j))) [0 ..< length ts]"
    using assms by simp
  also have "\<dots> = map (\<lambda>p. G (snd p)) (map (\<lambda>j. ts ! j) [0 ..< length ts])"
    by (simp add: comp_def)
  also have "\<dots> = map (\<lambda>(key, val). G val) ts"
    by (simp add: map_nth split_def)
  finally show ?thesis .
qed

text \<open>Reading the values of a well-formed dictionary through its own converter.\<close>

lemma values_buffer_built:
  assumes "wf_dict pd" and "init pd = Inr c"
  shows "values_buffer E c pd =
           Inr \<lparr>nd_shape = [array_length c], nd_dtype = Float32, nd_ctx = current_context E,
                nd_elems = concat (map (\<lambda>(key, val). map (cast E Float32) (nd_elems (p_data val)))
                                    (trainable pd))\<rparr>"
proof -
  note f = init_fields [OF assms(2)]
  have d: "distinct (map fst pd)" using assms(1) by (simp add: wf_dict_def)
  have pre: "\<forall>j < length (sizes_of pd). \<exists>val. map_of pd (names c ! j) = Some val
            \<and> nd_size (p_data val) = sizes_of pd ! j
            \<and> length (nd_elems (p_data val)) = sizes_of pd ! j"
    using trainable_lookup [OF d] trainable_nth_wf [OF assms(1)]
    by (simp add: f(6) sizes_of_def split_def wf_parameter_def wf_ndarray_def)
  have len: "length (nd_elems (zeros E (array_length c))) = sum_list (sizes_of pd)"
    by (simp add: zeros_def f(7))
  have conv: "map (\<lambda>j. map (cast E Float32) (nd_elems (p_data (the (map_of pd (names c ! j))))))
                [0 ..< length (trainable pd)]
              = map (\<lambda>(key, val). map (cast E Float32) (nd_elems (p_data val))) (trainable pd)"
    by (rule map_upt_nth) (simp add: f(6) trainable_lookup [OF d])
  have "values_buffer E c pd
      = extract_values_loop E c (enumerate 0 (drop 0 (names c))) pd (zeros E (array_length c))"
    by (simp add: values_buffer_def)
  also have "\<dots> = Inr ((zeros E (array_length c))\<lparr>nd_elems :=
       take (sum_list (take 0 (sizes_of pd))) (nd_elems (zeros E (array_length c)))
         @ concat (map (\<lambda>j. map (cast E (nd_dtype (zeros E (array_length c))))
                              (nd_elems (p_data (the (map_of pd (names c ! j))))))
                     [0 ..< length (sizes_of pd)])\<rparr>)"
    by (rule extract_values_loop_layout [OF f(1) f(2) _ pre _ len]) (simp_all add: f(6))
  also have "\<dots> = Inr \<lparr>nd_shape = [array_length c], nd_dtype = Float32, nd_ctx = current_context E,
                nd_elems = concat (map (\<lambda>(key, val). map (cast E Float32) (nd_elems (p_data val)))
                                    (trainable pd))\<rparr>"
    using conv by (simp add: zeros_def)
  finally show ?thesis .
qed

text \<open>Reading the gradients of a well-formed dictionary through its own converter.\<close>

lemma gradients_buffer_built:
  assumes "wf_dict pd" and "init pd = Inr c"
  shows "gradients_buffer E c pd =
           Inr \<lparr>nd_shape = [array_length c], nd_dtype = Float32, nd_ctx = current_context E,
                nd_elems = concat (map (\<lambda>(key, val). map (cast E Float32) (grad_elems val))
                                    (trainable pd))\<rparr>"
proof -
  note f = init_fields [OF assms(2)]
  have d: "distinct (map fst pd)" using assms(1) by (simp add: wf_dict_def)
  have g: "\<exists>g. p_grad (snd (trainable pd ! j)) = Some g \<and> wf_ndarray g
             \<and> nd_shape g = nd_shape (p_data (snd (trainable pd ! j)))"
    if "j < length (trainable pd)" for j
    using trainable_nth_wf [OF assms(1) that] trainable_nth_grad_req [OF that]
    by (auto simp: wf_parameter_def split: option.splits)
  have has_grad: "\<forall>(i, key) \<in> set (enumerate 0 (names c)).
                    \<forall>val. map_of pd key = Some val \<longrightarrow> p_grad val \<noteq> None"
  proof (clarsimp simp: f(6) in_set_enumerate_eq)
    fix j val assume j: "j < length (trainable pd)"
      and "map_of pd (fst (trainable pd ! j)) = Some val"
    then have "val = snd (trainable pd ! j)"
      using trainable_lookup [OF d j] by simp
    then show "\<exists>y. p_grad val = Some y"
      using g [OF j] by blast
  qed
  have pre: "\<forall>j < length (sizes_of pd). \<exists>val. map_of (grad_view pd) (names c ! j) = Some val
            \<and> nd_size (p_data val) = sizes_of pd ! j
            \<and> length (nd_elems (p_data val)) = sizes_of pd ! j"
  proof (intro allI impI)
    fix j assume "j < length (sizes_of pd)"
    then have j: "j < length (trainable pd)" by simp
    from g [OF j] obtain gr where gr: "p_grad (snd (trainable pd ! j)) = Some gr" "wf_ndarray gr"
      "nd_shape gr = nd_shape (p_data (snd (trainable pd ! j)))" by blast
    show "\<exists>val. map_of (grad_view pd) (names c ! j) = Some val
            \<and> nd_size (p_data val) = sizes_of pd ! j
            \<and> length (nd_elems (p_data val)) = sizes_of pd ! j"
      using j gr trainable_lookup [OF d j]
      by (simp add: f(6) map_of_grad_view sizes_of_def split_def wf_ndarray_def nd_size_def)
  qed
  have len: "length (nd_elems (zeros E (array_length c))) = sum_list (sizes_of pd)"
    by (simp add: zeros_def f(7))
  have conv: "map (\<lambda>j. map (cast E Float32)
                        (nd_elems (p_data (the (map_of (grad_view pd) (names c ! j))))))
                [0 ..< length (trainable pd)]
              = map (\<lambda>(key, val). map (cast E Float32) (grad_elems val)) (trainable pd)"
  proof (rule map_upt_nth, intro allI impI)
    fix j assume j: "j < length (trainable pd)"
    from g [OF j] obtain gr where gr: "p_grad (snd (trainable pd ! j)) = Some gr" by blast
    show "map (cast E Float32) (nd_elems (p_data (the (map_of (grad_view pd) (names c ! j)))))
            = map (cast E Float32) (grad_elems (snd (trainable pd ! j)))"
      using j gr trainable_lookup [OF d j]
      by (simp add: f(6) map_of_grad_view grad_elems_def)
  qed
  have "gradients_buffer E c pd
      = extract_values_loop E c (enumerate 0 (drop 0 (names c))) (grad_view pd)
          (zeros E (array_length c))"
    using gradients_loop_as_values_loop [OF has_grad] by (simp add: gradients_buffer_def)
  also have "\<dots> = Inr ((zeros E (array_length c))\<lparr>nd_elems :=
       take (sum_list (take 0 (sizes_of pd))) (nd_elems (zeros E (array_length c)))
         @ concat (map (\<lambda>j. map (cast E (nd_dtype (zeros E (array_length c))))
                              (nd_elems (p_data (the (map_of (grad_view pd) (names c ! j))))))
                     [0 ..< length (sizes_of pd)])\<rparr>)"
    by (rule extract_values_loop_layout [OF f(1) f(2) _ pre _ len]) (simp_all add: f(6))
  also have "\<dots> = Inr \<lparr>nd_shape = [array_length c], nd_dtype = Float32, nd_ctx = current_context E,
                nd_elems = concat (map (\<lambda>(key, val). map (cast E Float32) (grad_elems val))
                                    (trainable pd))\<rparr>"
    using conv by (simp add: zeros_def)
  finally show ?thesis .
qed

lemma wf_example [simp]: "wf_dict example_dict"
  by (simp add: wf_dict_def wf_parameter_def wf_ndarray_def nd_size_def example_defs)

lemma extract_values_loop_frame:
  fixes pd :: "'v parameter_dict"
  shows "extract_values_loop E c L pd x = Inr x' \<Longrightarrow>
     length (nd_elems x') = length (nd_elems x) \<and> nd_shape x' = nd_shape x
     \<and> nd_dtype x' = nd_dtype x \<and> nd_ctx x' = nd_ctx x"
proof (induction L arbitrary: x)
  case Nil
  then show ?case by simp
next
  case (Cons p L)
  obtain i key where p: "p = (i, key)" by (cases p)
  from Cons.prems obtain val :: "'v parameter" and x1 :: "'v ndarray" where
    "slice_assign E x (i_start c ! i) (i_end c ! i) (reshape_flat (p_data val)) = Inr x1"
    "extract_values_loop E c L pd x1 = Inr x'"
    by (auto simp: p split: option.splits if_splits sum.splits)
  with Cons.IH [of x1] show ?case
    by (auto simp: slice_assign_def split: if_splits)
qed

text \<open>
  C7. Whenever the named parameters have a gradient buffer,
  \<^verbatim>\<open>extract_parameter_gradients_as_array\<close> returns what
  \<^verbatim>\<open>extract_parameter_values_as_array\<close> returns on the dictionary in which each parameter
  shows its gradient buffer as its value: the same records in the same order at the same
  offsets, errors included. The dictionary it leaves is the one it was given.
\<close>

theorem gradients_same_traversal:
  assumes "\<forall>key \<in> set (names c). \<forall>val. map_of pd key = Some val \<longrightarrow> p_grad val \<noteq> None"
  shows "extract_parameter_gradients_as_array E c pd
           = (fst (extract_parameter_values_as_array E c (grad_view pd)), pd)"
proof -
  have "\<forall>(i, key) \<in> set (enumerate 0 (names c)).
          \<forall>val. map_of pd key = Some val \<longrightarrow> p_grad val \<noteq> None"
    using assms by (auto simp: in_set_enumerate_eq)
  then have "gradients_buffer E c pd = values_buffer E c (grad_view pd)"
    by (simp add: gradients_buffer_def values_buffer_def gradients_loop_as_values_loop)
  then show ?thesis
    by (simp add: extract_parameter_gradients_as_array_def
        extract_parameter_values_as_array_def split: sum.splits)
qed

theorem gradients_same_traversal_witness:
  "names example_converter = [''a'', ''b'']
   \<and> map_of example_dict ''a'' = Some param_a \<and> p_grad param_a \<noteq> None
   \<and> map_of example_dict ''b'' = Some param_b \<and> p_grad param_b \<noteq> None
   \<and> extract_parameter_gradients_as_array truncating_engine example_converter example_dict
       = (Inr [1 / 10, 2 / 10, 3 / 10], example_dict)"
proof -
  have h: "\<forall>key \<in> set (names example_converter).
      \<forall>val. map_of example_dict key = Some val \<longrightarrow> p_grad val \<noteq> None"
    by (simp add: example_converter_def example_defs)
  have "fst (extract_parameter_values_as_array truncating_engine example_converter
          (grad_view example_dict)) = Inr [1 / 10, 2 / 10, 3 / 10]"
    by (simp add: extract_parameter_values_as_array_def values_buffer_def
        example_converter_def example_defs grad_view_def zeros_def slice_assign_def
        reshape_flat_def nd_size_def asnumpy_def truncating_engine_def is_integer_dtype_def)
  with gradients_same_traversal [OF h, of truncating_engine]
  have "extract_parameter_gradients_as_array truncating_engine example_converter example_dict
       = (Inr [1 / 10, 2 / 10, 3 / 10], example_dict)"
    by simp
  then show ?thesis
    by (simp add: example_converter_def example_defs)
qed

text \<open>
  C8. For a well-formed dictionary and its converter,
  \<^verbatim>\<open>extract_parameter_values_as_array\<close> returns a vector of length \<open>array_length\<close>, built
  from a buffer of zeros: the converted elements of the trainable parameters in order. The
  dictionary is left as it was, and a second call returns the same vector.
\<close>

theorem values_extraction_pure:
  assumes "wf_dict pd" and "init pd = Inr c"
  shows "\<exists>v. extract_parameter_values_as_array E c pd = (Inr v, pd)
           \<and> length v = array_length c
           \<and> v = concat (map (\<lambda>(key, val). map (cast E Float32) (nd_elems (p_data val)))
                          (trainable pd))
           \<and> extract_parameter_values_as_array E c
                (snd (extract_parameter_values_as_array E c pd)) = (Inr v, pd)"
proof -
  let ?x = "\<lparr>nd_shape = [array_length c], nd_dtype = Float32, nd_ctx = current_context E,
            nd_elems = concat (map (\<lambda>(key, val). map (cast E Float32) (nd_elems (p_data val)))
                                (trainable pd))\<rparr>"
  have b: "values_buffer E c pd = Inr ?x"
    by (rule values_buffer_built [OF assms])
  then have "extract_values_loop E c (enumerate 0 (names c)) pd (zeros E (array_length c)) = Inr ?x"
    by (simp add: values_buffer_def)
  from extract_values_loop_frame [OF this]
  have "length (nd_elems ?x) = array_length c"
    by (simp add: zeros_def)
  with b show ?thesis
    by (simp add: extract_parameter_values_as_array_def asnumpy_def)
qed

theorem values_extraction_pure_witness:
  "wf_dict example_dict \<and> init example_dict = Inr example_converter
   \<and> extract_parameter_values_as_array truncating_engine example_converter example_dict
       = (Inr [5, 6, 4], example_dict)
   \<and> extract_parameter_values_as_array truncating_engine example_converter
        (snd (extract_parameter_values_as_array truncating_engine example_converter example_dict))
       = (Inr [5, 6, 4], example_dict)"
  using values_extraction_pure [OF wf_example init_example, of truncating_engine]
  by (auto simp: init_example param_a_def param_b_def truncating_engine_def is_integer_dtype_def)

text \<open>
  C9. For a well-formed dictionary and its converter, whatever numeric types and devices
  its parameters have: the buffer of either extraction is one-dimensional of length
  \<open>array_length\<close>, of type \<open>Float32\<close>, on the current device; its elements are those of
  the trainable parameters (values or gradients) converted to \<open>Float32\<close>; and the vector
  returned is that buffer as a \<^verbatim>\<open>numpy\<close> vector.
\<close>

theorem buffers_default_type_and_device:
  assumes "wf_dict pd" and "init pd = Inr c"
  shows "\<exists>x g. values_buffer E c pd = Inr x
           \<and> nd_dtype x = Float32 \<and> nd_ctx x = current_context E
           \<and> nd_shape x = [array_length c]
           \<and> nd_elems x = concat (map (\<lambda>(key, val). map (cast E Float32) (nd_elems (p_data val)))
                                   (trainable pd))
           \<and> fst (extract_parameter_values_as_array E c pd) = Inr (asnumpy x)
           \<and> gradients_buffer E c pd = Inr g
           \<and> nd_dtype g = Float32 \<and> nd_ctx g = current_context E
           \<and> nd_shape g = [array_length c]
           \<and> nd_elems g = concat (map (\<lambda>(key, val). map (cast E Float32) (grad_elems val))
                                   (trainable pd))
           \<and> fst (extract_parameter_gradients_as_array E c pd) = Inr (asnumpy g)"
  by (simp add: values_buffer_built [OF assms] gradients_buffer_built [OF assms]
      extract_parameter_values_as_array_def extract_parameter_gradients_as_array_def)

theorem buffers_default_type_and_device_witness:
  "wf_dict example_dict \<and> init example_dict = Inr example_converter
   \<and> nd_dtype (p_data param_b) = Float64 \<and> nd_ctx (p_data param_b) = Gpu 0
   \<and> values_buffer truncating_engine example_converter example_dict
       = Inr \<lparr>nd_shape = [3], nd_dtype = Float32, nd_ctx = Cpu 0, nd_elems = [5, 6, 4]\<rparr>
   \<and> gradients_buffer truncating_engine example_converter example_dict
       = Inr \<lparr>nd_shape = [3], nd_dtype = Float32, nd_ctx = Cpu 0,
              nd_elems = [1 / 10, 2 / 10, 3 / 10]\<rparr>"
proof -
  from buffers_default_type_and_device [OF wf_example init_example, of truncating_engine]
  obtain x g where
    "values_buffer truncating_engine example_converter example_dict = Inr x"
    "nd_dtype x = Float32" "nd_ctx x = current_context truncating_engine"
    "nd_shape x = [array_length example_converter]"
    "nd_elems x = concat (map (\<lambda>(key, val). map (cast truncating_engine Float32)
                                 (nd_elems (p_data val))) (trainable example_dict))"
    "gradients_buffer truncating_engine example_converter example_dict = Inr g"
    "nd_dtype g = Float32" "nd_ctx g = current_context truncating_engine"
    "nd_shape g = [array_length example_converter]"
    "nd_elems g = concat (map (\<lambda>(key, val). map (cast truncating_engine Float32)
                                 (grad_elems val)) (trainable example_dict))"
    by blast
  then have "values_buffer truncating_engine example_converter example_dict
       = Inr \<lparr>nd_shape = [3], nd_dtype = Float32, nd_ctx = Cpu 0, nd_elems = [5, 6, 4]\<rparr>"
    and "gradients_buffer truncating_engine example_converter example_dict
       = Inr \<lparr>nd_shape = [3], nd_dtype = Float32, nd_ctx = Cpu 0,
              nd_elems = [1 / 10, 2 / 10, 3 / 10]\<rparr>"
    by (simp_all add: ndarray.equality example_converter_def param_a_def param_b_def
        grad_elems_def truncating_engine_def is_integer_dtype_def)
  then show ?thesis
    by (simp add: init_example param_b_def)
qed


section \<open>Fixed parameters\<close>

text \<open>Whatever the converter, the loop writes only under the names it walks over.\<close>

lemma set_values_loop_other_keys:
  "key \<notin> snd ` set L \<Longrightarrow> map_of (snd (set_values_loop E c x L pd)) key = map_of pd key"
proof (induction L arbitrary: pd)
  case Nil
  then show ?case by simp
next
  case (Cons p L)
  obtain i k where p: "p = (i, k)" by (cases p)
  with Cons.prems have k: "k \<noteq> key" and rest: "key \<notin> snd ` set L" by auto
  show ?case
    using Cons.IH [OF rest] k
    by (simp add: p update_conv' split: option.splits sum.splits)
qed

lemma set_values_loop_keys:
  "map fst (snd (set_values_loop E c x L pd)) = map fst pd"
proof (induction L arbitrary: pd)
  case Nil
  then show ?case by simp
next
  case (Cons p L)
  obtain i k where p: "p = (i, k)" by (cases p)
  have "map fst (AList.update k v pd) = map fst pd" if "map_of pd k = Some w" for v w
    using that by (simp add: update_keys map_of_eq_None_iff [symmetric] del: map_of_eq_None_iff)
  then show ?case
    using Cons.IH by (simp add: p split: option.splits sum.splits)
qed

text \<open>
  C5. For a well-formed dictionary and its converter: \<open>array_length\<close> is the sum of the
  sizes of the trainable parameters only; no fixed parameter is among the names; the value
  vector and the gradient vector consist of the elements of the trainable parameters, in
  order; and for every input vector, of the right length or not, each fixed parameter is
  afterwards what it was, under the same keys.
\<close>

theorem fixed_parameters_invisible:
  assumes "wf_dict pd" and "init pd = Inr c"
  shows "array_length c = sum_list (map (\<lambda>(key, val). nd_size (p_data val)) (trainable pd))
       \<and> (\<forall>key val. map_of pd key = Some val \<and> grad_req val = ''null'' \<longrightarrow> key \<notin> set (names c))
       \<and> fst (extract_parameter_values_as_array E c pd)
           = Inr (concat (map (\<lambda>(key, val). map (cast E Float32) (nd_elems (p_data val)))
                            (trainable pd)))
       \<and> fst (extract_parameter_gradients_as_array E c pd)
           = Inr (concat (map (\<lambda>(key, val). map (cast E Float32) (grad_elems val))
                            (trainable pd)))
       \<and> (\<forall>x key val. map_of pd key = Some val \<and> grad_req val = ''null'' \<longrightarrow>
             map_of (snd (set_values_from_array E c x pd)) key = Some val)
       \<and> (\<forall>x. map fst (snd (set_values_from_array E c x pd)) = map fst pd)"
proof -
  note f = init_fields [OF assms(2)]
  have d: "distinct (map fst pd)" using assms(1) by (simp add: wf_dict_def)
  have len: "array_length c = sum_list (map (\<lambda>(key, val). nd_size (p_data val)) (trainable pd))"
    by (simp add: f(7) sizes_of_def)
  have notin: "key \<notin> set (names c)" if "map_of pd key = Some val" "grad_req val = ''null''"
    for key val
    using fixed_not_named [OF d that] by (simp add: f(6))
  have vals: "fst (extract_parameter_values_as_array E c pd)
           = Inr (concat (map (\<lambda>(key, val). map (cast E Float32) (nd_elems (p_data val)))
                            (trainable pd)))"
    by (simp add: extract_parameter_values_as_array_def values_buffer_built [OF assms] asnumpy_def)
  have grads: "fst (extract_parameter_gradients_as_array E c pd)
           = Inr (concat (map (\<lambda>(key, val). map (cast E Float32) (grad_elems val))
                            (trainable pd)))"
    by (simp add: extract_parameter_gradients_as_array_def gradients_buffer_built [OF assms]
        asnumpy_def)
  have kept: "map_of (snd (set_values_from_array E c x pd)) key = Some val"
    if "map_of pd key = Some val" "grad_req val = ''null''" for x key val
  proof -
    have "key \<notin> snd ` set (enumerate 0 (names c))"
      using notin [OF that] by (auto simp: in_set_enumerate_eq)
    then show ?thesis
      using that(1) by (simp add: set_values_from_array_def set_values_loop_other_keys)
  qed
  have keys: "map fst (snd (set_values_from_array E c x pd)) = map fst pd" for x
    by (simp add: set_values_from_array_def set_values_loop_keys)
  show ?thesis
    using len notin vals grads kept keys by blast
qed

theorem fixed_parameters_invisible_witness:
  "wf_dict example_dict \<and> init example_dict = Inr example_converter
   \<and> map_of example_dict ''c'' = Some fixed_c \<and> grad_req fixed_c = ''null''
   \<and> array_length example_converter = 3
   \<and> ''c'' \<notin> set (names example_converter)
   \<and> fst (extract_parameter_values_as_array truncating_engine example_converter example_dict)
       = Inr [5, 6, 4]
   \<and> map_of (snd (set_values_from_array truncating_engine example_converter [1, 2, 3]
                      example_dict)) ''c'' = Some fixed_c
   \<and> map_of (snd (set_values_from_array truncating_engine example_converter [1]
                      example_dict)) ''c'' = Some fixed_c"
proof -
  have c: "map_of example_dict ''c'' = Some fixed_c" "grad_req fixed_c = ''null''"
    by (simp_all add: example_defs)
  note t = fixed_parameters_invisible [OF wf_example init_example, of truncating_engine]
  from t c have "''c'' \<notin> set (names example_converter)"
    by blast
  moreover from t c have
    "map_of (snd (set_values_from_array truncating_engine example_converter x example_dict)) ''c''
       = Some fixed_c" for x
    by blast
  moreover from t have
    "fst (extract_parameter_values_as_array truncating_engine example_converter example_dict)
       = Inr [5, 6, 4]"
    by (simp add: param_a_def param_b_def truncating_engine_def is_integer_dtype_def)
  ultimately show ?thesis
    using c by (simp add: init_example) (simp add: example_converter_def)
qed


section \<open>Writing and reading back\<close>

lemma element_dtypes_offsets:
  "length ds = length ns \<Longrightarrow>
     concat (map (\<lambda>(a, b, d). replicate (b - a) d) (zip (starts i ns) (zip (ends i ns) ds)))
       = concat (map (\<lambda>(n, d). replicate n d) (zip ns ds))"
proof (induction ns arbitrary: i ds)
  case Nil
  then show ?case by simp
next
  case (Cons n ns)
  then obtain d ds' where "ds = d # ds'" by (cases ds) auto
  with Cons show ?case by simp
qed

lemma length_slice: "b \<le> length v \<Longrightarrow> length (slice v a b) = b - a"
  by (simp add: slice_def)

lemma slice_append:
  assumes "a \<le> b" and "b \<le> c" and "c \<le> length v"
  shows "slice v a b @ slice v b c = slice v a c"
proof -
  have "take c v = take b v @ drop b (take c v)"
    using assms(2) by (metis append_take_drop_id min.absorb1 take_take)
  then have "drop a (take c v) = drop a (take b v @ drop b (take c v))"
    by simp
  also have "\<dots> = drop a (take b v) @ drop b (take c v)"
    using assms by simp
  finally show ?thesis by (simp add: slice_def)
qed

lemma concat_slices:
  assumes "length ds = length ns" and "i + sum_list ns \<le> length v"
  shows "concat (map (\<lambda>j. map (f (ds ! j)) (slice v (starts i ns ! j) (ends i ns ! j)))
                   [0 ..< length ns])
           = map (\<lambda>(d, x). f d x)
               (zip (concat (map (\<lambda>(n, d). replicate n d) (zip ns ds)))
                    (slice v i (i + sum_list ns)))"
  using assms
proof (induction ns arbitrary: i ds)
  case Nil
  then show ?case by simp
next
  case (Cons n ns)
  then obtain d ds' where ds: "ds = d # ds'" by (cases ds) auto
  let ?R = "concat (map (\<lambda>(n, d). replicate n d) (zip ns ds'))"
  let ?A = "slice v i (i + n)" and ?B = "slice v (i + n) (i + n + sum_list ns)"
  have lenA: "length ?A = n"
    using Cons.prems(2) by (simp add: length_slice)
  have IH: "concat (map (\<lambda>j. map (f (ds' ! j))
                             (slice v (starts (i + n) ns ! j) (ends (i + n) ns ! j)))
                      [0 ..< length ns])
            = map (\<lambda>(d, x). f d x) (zip ?R ?B)"
    using Cons.IH [of ds' "i + n"] Cons.prems ds by (simp add: add.assoc)
  have split: "slice v i (i + sum_list (n # ns)) = ?A @ ?B"
    using slice_append [of i "i + n" "i + n + sum_list ns" v] Cons.prems(2)
    by (simp add: add.assoc)
  have upt: "[0 ..< length (n # ns)] = 0 # map Suc [0 ..< length ns]"
    by (simp add: upt_conv_Cons map_Suc_upt del: upt_Suc)
  have lhs: "concat (map (\<lambda>j. map (f (ds ! j))
                           (slice v (starts i (n # ns) ! j) (ends i (n # ns) ! j)))
                      [0 ..< length (n # ns)])
             = map (f d) ?A @ map (\<lambda>(d, x). f d x) (zip ?R ?B)"
    unfolding upt using IH by (simp add: ds comp_def)
  have zipA: "map (\<lambda>(d, x). f d x) (zip (replicate n d) ?A) = map (f d) ?A"
    using lenA by (simp add: zip_replicate1)
  have rhs: "map (\<lambda>(d, x). f d x)
               (zip (concat (map (\<lambda>(n, d). replicate n d) (zip (n # ns) ds)))
                    (slice v i (i + sum_list (n # ns))))
             = map (f d) ?A @ map (\<lambda>(d, x). f d x) (zip ?R ?B)"
    unfolding split using lenA zipA by (simp add: ds zip_append)
  show ?case
    unfolding lhs rhs ..
qed


lemma length_replicated:
  "length ds = length ns \<Longrightarrow>
     length (concat (map (\<lambda>(n, d). replicate n d) (zip ns ds))) = sum_list ns"
proof (induction ns arbitrary: ds)
  case Nil
  then show ?case by simp
next
  case (Cons n ns)
  then obtain d ds' where "ds = d # ds'" by (cases ds) auto
  with Cons show ?case by simp
qed

lemma ends_le_sum: "j < length ns \<Longrightarrow> ends i ns ! j \<le> i + sum_list ns"
  using sum_list_take_le [of "Suc j" ns] by (simp add: ends_nth)

lemma width_nth:
  "j < length ns \<Longrightarrow> ends i ns ! j - starts i ns ! j = ns ! j"
  by (simp add: starts_nth ends_nth take_Suc_conv_app_nth)

text \<open>
  C1, as amended. For a dictionary with distinct keys, its converter and a vector \<open>v\<close> of
  length \<open>array_length\<close>: \<^verbatim>\<open>set_values_from_array\<close> succeeds, and
  \<^verbatim>\<open>extract_parameter_values_as_array\<close> then returns, position by position, the element of
  \<open>v\<close> converted to the numeric type recorded for that position and then to \<open>Float32\<close>.
  It returns \<open>v\<close> itself when every element of \<open>v\<close> is unchanged by these conversions.
\<close>

theorem round_trip:
  assumes "distinct (map fst pd)" and "init pd = Inr c" and "length v = array_length c"
  shows "\<exists>pd' r. set_values_from_array E c v pd = (None, pd')
           \<and> extract_parameter_values_as_array E c pd' = (Inr r, pd')
           \<and> r = map (\<lambda>(d, x). cast E Float32 (cast E d x)) (zip (element_dtypes c) v)
           \<and> length r = length v
           \<and> ((\<forall>(d, x) \<in> set (zip (element_dtypes c) v). cast E Float32 (cast E d x) = x)
                \<longrightarrow> r = v)"
proof -
  note f = init_fields [OF assms(2)]
  let ?ns = "sizes_of pd" and ?ks = "names c" and ?ts = "trainable pd"
  let ?n = "length ?ts"
  have lenv: "length v = sum_list ?ns"
    using assms(3) f(7) by simp
  have lks: "length ?ks = ?n"
    by (simp add: f(6))
  have dks: "distinct ?ks"
    using distinct_trainable_keys [OF assms(1)] by (simp add: f(6))
  have slice_len: "length (slice v (i_start c ! j) (i_end c ! j)) = ?ns ! j" if "j < ?n" for j
    using that ends_le_sum [of j ?ns 0] lenv
    by (simp add: f(1,2) length_slice width_nth)
  have size_nth: "?ns ! j = prod_list (shapes c ! j)" if "j < ?n" for j
    using that by (simp add: f(3) sizes_of_def split_def nd_size_def)
  have pre_set: "\<forall>j < length ?ks. \<exists>val. map_of pd (?ks ! j) = Some val
           \<and> nd_shape (p_data val) = shapes c ! j
           \<and> prod_list (shapes c ! j) = length (slice v (i_start c ! j) (i_end c ! j))"
  proof (intro allI impI)
    fix j assume "j < length ?ks"
    then have j: "j < ?n" by (simp add: lks)
    show "\<exists>val. map_of pd (?ks ! j) = Some val
           \<and> nd_shape (p_data val) = shapes c ! j
           \<and> prod_list (shapes c ! j) = length (slice v (i_start c ! j) (i_end c ! j))"
      using j trainable_lookup [OF assms(1) j] slice_len [OF j] size_nth [OF j]
      by (simp add: f(6) f(3) split_def)
  qed
  have "\<exists>pd'. set_values_loop E c v (enumerate 0 (drop 0 ?ks)) pd = (None, pd')
           \<and> map fst pd' = map fst pd
           \<and> (\<forall>j. 0 \<le> j \<and> j < length ?ks \<longrightarrow>
                 map_of pd' (?ks ! j)
                   = map_option (\<lambda>val. val\<lparr>p_data := written_array E c v j\<rparr>) (map_of pd (?ks ! j)))
           \<and> (\<forall>key. key \<notin> set (drop 0 ?ks) \<longrightarrow> map_of pd' key = map_of pd key)"
    by (rule set_values_loop_result [OF dks _ _ _ _ _ pre_set]) (simp_all add: f lks)
  then obtain pd' where loop: "set_values_loop E c v (enumerate 0 ?ks) pd = (None, pd')"
    and written: "\<And>j. j < ?n \<Longrightarrow> map_of pd' (?ks ! j)
        = map_option (\<lambda>val. val\<lparr>p_data := written_array E c v j\<rparr>) (map_of pd (?ks ! j))"
    by (auto simp: lks)
  have set: "set_values_from_array E c v pd = (None, pd')"
    using loop assms(3) by (simp add: set_values_from_array_def)
  have look: "map_of pd' (?ks ! j)
      = Some ((snd (?ts ! j))\<lparr>p_data := written_array E c v j\<rparr>)" if "j < ?n" for j
    using written [OF that] trainable_lookup [OF assms(1) that] that by (simp add: f(6))
  have pre_ex: "\<forall>j < length ?ns. \<exists>val. map_of pd' (?ks ! j) = Some val
            \<and> nd_size (p_data val) = ?ns ! j \<and> length (nd_elems (p_data val)) = ?ns ! j"
  proof (intro allI impI)
    fix j assume "j < length ?ns"
    then have j: "j < ?n" by simp
    show "\<exists>val. map_of pd' (?ks ! j) = Some val
            \<and> nd_size (p_data val) = ?ns ! j \<and> length (nd_elems (p_data val)) = ?ns ! j"
      using look [OF j] slice_len [OF j] size_nth [OF j]
      by (simp add: written_array_def nd_size_def)
  qed
  have lenz: "length (nd_elems (zeros E (array_length c))) = sum_list ?ns"
    by (simp add: zeros_def f(7))
  let ?conv = "\<lambda>d x. cast E Float32 (cast E d x)"
  have seg: "map (\<lambda>j. map (cast E (nd_dtype (zeros E (array_length c))))
                        (nd_elems (p_data (the (map_of pd' (?ks ! j))))))
               [0 ..< length ?ns]
             = map (\<lambda>j. map (?conv (dtypes c ! j)) (slice v (starts 0 ?ns ! j) (ends 0 ?ns ! j)))
                 [0 ..< length ?ns]"
    using look by (simp add: written_array_def zeros_def f(1,2) comp_def)
  have ldt: "length (dtypes c) = length ?ns"
    by (simp add: f(4))
  have "values_buffer E c pd'
      = extract_values_loop E c (enumerate 0 (drop 0 ?ks)) pd' (zeros E (array_length c))"
    by (simp add: values_buffer_def)
  also have "\<dots> = Inr ((zeros E (array_length c))\<lparr>nd_elems :=
       take (sum_list (take 0 ?ns)) (nd_elems (zeros E (array_length c)))
         @ concat (map (\<lambda>j. map (cast E (nd_dtype (zeros E (array_length c))))
                              (nd_elems (p_data (the (map_of pd' (?ks ! j))))))
                     [0 ..< length ?ns])\<rparr>)"
    by (rule extract_values_loop_layout [OF f(1) f(2) _ pre_ex _ lenz]) (simp_all add: f(6))
  also have "\<dots> = Inr ((zeros E (array_length c))\<lparr>nd_elems :=
       map (\<lambda>(d, x). ?conv d x) (zip (element_dtypes c) v)\<rparr>)"
    unfolding seg
    using concat_slices [OF ldt, of 0 v ?conv] lenv element_dtypes_offsets [OF ldt, of 0]
    by (simp add: element_dtypes_def f(1,2) slice_def)
  finally have buf: "values_buffer E c pd' = Inr ((zeros E (array_length c))\<lparr>nd_elems :=
       map (\<lambda>(d, x). ?conv d x) (zip (element_dtypes c) v)\<rparr>)" .
  let ?r = "map (\<lambda>(d, x). ?conv d x) (zip (element_dtypes c) v)"
  have ex: "extract_parameter_values_as_array E c pd' = (Inr ?r, pd')"
    using buf by (simp add: extract_parameter_values_as_array_def asnumpy_def)
  have lde: "length (element_dtypes c) = length v"
    using element_dtypes_offsets [OF ldt, of 0] lenv ldt
    by (simp add: element_dtypes_def f(1,2) length_replicated)
  have lr: "length ?r = length v"
    using lde by simp
  have same: "?r = v" if "\<forall>(d, x) \<in> set (zip (element_dtypes c) v). ?conv d x = x"
  proof -
    have "?r = map snd (zip (element_dtypes c) v)"
      using that by (intro map_cong) auto
    then show ?thesis using lde by simp
  qed
  show ?thesis
    using set ex lr same by blast
qed

lemma distinct_example [simp]: "distinct (map fst example_dict)"
  by (simp add: example_dict_def)

theorem round_trip_witness:
  "distinct (map fst example_dict) \<and> init example_dict = Inr example_converter
   \<and> length [1, 2, 3 :: real] = array_length example_converter
   \<and> element_dtypes example_converter = [Float32, Float32, Float64]
   \<and> cast truncating_engine Float32 (cast truncating_engine Float32 1) = 1
   \<and> cast truncating_engine Float32 (cast truncating_engine Float32 2) = 2
   \<and> cast truncating_engine Float32 (cast truncating_engine Float64 3) = 3
   \<and> (\<exists>pd'. set_values_from_array truncating_engine example_converter [1, 2, 3] example_dict
               = (None, pd')
          \<and> extract_parameter_values_as_array truncating_engine example_converter pd'
               = (Inr [1, 2, 3], pd'))"
proof -
  have l: "length [1, 2, 3 :: real] = array_length example_converter"
    by (simp add: example_converter_def)
  have inv: "\<forall>(d, x) \<in> set (zip (element_dtypes example_converter) [1, 2, 3 :: real]).
         cast truncating_engine Float32 (cast truncating_engine d x) = x"
    by (simp add: element_dtypes_def example_converter_def truncating_engine_def
        is_integer_dtype_def numeral_2_eq_2)
  from round_trip [OF distinct_example init_example l, of truncating_engine]
  obtain pd' r where
    w: "set_values_from_array truncating_engine example_converter [1, 2, 3] example_dict
          = (None, pd')"
    and e: "extract_parameter_values_as_array truncating_engine example_converter pd'
          = (Inr r, pd')"
    and same: "(\<forall>(d, x) \<in> set (zip (element_dtypes example_converter) [1, 2, 3 :: real]).
         cast truncating_engine Float32 (cast truncating_engine d x) = x) \<longrightarrow> r = [1, 2, 3]"
    by (elim exE conjE)
  from same inv have "r = [1, 2, 3]" ..
  with w e
  have "\<exists>pd'. set_values_from_array truncating_engine example_converter [1, 2, 3] example_dict
               = (None, pd')
          \<and> extract_parameter_values_as_array truncating_engine example_converter pd'
               = (Inr [1, 2, 3], pd')"
    by (intro exI [of _ pd']) simp
  moreover have "element_dtypes example_converter = [Float32, Float32, Float64]"
    by (simp add: element_dtypes_def example_converter_def numeral_2_eq_2)
  ultimately show ?thesis
    using l by (simp add: init_example truncating_engine_def is_integer_dtype_def)
qed

text \<open>
  C1 as stated fails. A trainable parameter of type \<^verbatim>\<open>int32\<close> and shape \<open>(1,)\<close>, the vector
  \<open>[1.5]\<close> of the right length: the value written is \<open>1\<close>, and reading back returns
  \<open>[1.0]\<close>, which is not the vector written.
\<close>

theorem round_trip_integer_parameter:
  "init int_dict = Inr int_converter
   \<and> length [3 / 2 :: real] = array_length int_converter
   \<and> set_values_from_array truncating_engine int_converter [3 / 2] int_dict
       = (None, [(''w'', int_param\<lparr>p_data := (p_data int_param)\<lparr>nd_elems := [1]\<rparr>\<rparr>)])
   \<and> extract_parameter_values_as_array truncating_engine int_converter
         [(''w'', int_param\<lparr>p_data := (p_data int_param)\<lparr>nd_elems := [1]\<rparr>\<rparr>)]
       = (Inr [1], [(''w'', int_param\<lparr>p_data := (p_data int_param)\<lparr>nd_elems := [1]\<rparr>\<rparr>)])
   \<and> [1 :: real] \<noteq> [3 / 2]"
  by (simp add: init_def get_parameter_sizes_def int_dict_def int_param_def int_converter_def
      nd_size_def set_values_from_array_def nd_array_def reshape_def set_data_def slice_def
      truncating_engine_def is_integer_dtype_def extract_parameter_values_as_array_def
      values_buffer_def zeros_def slice_assign_def reshape_flat_def asnumpy_def)

text \<open>
  C6. For the dictionary with \<open>a\<close> of shape \<open>(2,)\<close> trainable, \<open>b\<close> of shape \<open>(1,1)\<close>
  trainable and \<open>c\<close> of shape \<open>(3,)\<close> fixed, whatever the types, devices and contents, and
  an engine whose conversions to the types of \<open>a\<close> and \<open>b\<close> keep 1, 2 and 3: the converter
  has length 3 and the ranges \<open>[0,2)\<close> for \<open>a\<close> and \<open>[2,3)\<close> for \<open>b\<close>, and writing
  \<open>[1, 2, 3]\<close> succeeds and leaves \<open>a\<close> with the elements \<open>[1, 2]\<close>, \<open>b\<close> with \<open>[3]\<close> in
  its shape \<open>(1,1)\<close>, and \<open>c\<close> as it was.
\<close>

theorem scenario:
  fixes a b c :: "real parameter"
  assumes "grad_req a \<noteq> ''null''" and "nd_shape (p_data a) = [2]"
    and "grad_req b \<noteq> ''null''" and "nd_shape (p_data b) = [1, 1]"
    and "grad_req c = ''null''" and "nd_shape (p_data c) = [3]"
    and "cast E (nd_dtype (p_data a)) 1 = 1" and "cast E (nd_dtype (p_data a)) 2 = 2"
    and "cast E (nd_dtype (p_data b)) 3 = 3"
  shows "\<exists>cv. init [(''a'', a), (''b'', b), (''c'', c)] = Inr cv
           \<and> array_length cv = 3 \<and> names cv = [''a'', ''b'']
           \<and> i_start cv = [0, 2] \<and> i_end cv = [2, 3]
           \<and> set_values_from_array E cv [1, 2, 3] [(''a'', a), (''b'', b), (''c'', c)]
               = (None, [(''a'', a\<lparr>p_data := (p_data a)\<lparr>nd_elems := [1, 2]\<rparr>\<rparr>),
                         (''b'', b\<lparr>p_data := (p_data b)\<lparr>nd_elems := [3]\<rparr>\<rparr>),
                         (''c'', c)])"
proof -
  let ?cv = "\<lparr>i_start = [0, 2], i_end = [2, 3], shapes = [[2], [1, 1]],
              dtypes = [nd_dtype (p_data a), nd_dtype (p_data b)],
              contexts = [nd_ctx (p_data a), nd_ctx (p_data b)],
              names = [''a'', ''b''], array_length = 3\<rparr>"
  have built: "init [(''a'', a), (''b'', b), (''c'', c)] = Inr ?cv"
    using assms(1-6) by (simp add: init_def get_parameter_sizes_def nd_size_def Let_def)
  have written: "set_values_from_array E ?cv [1, 2, 3] [(''a'', a), (''b'', b), (''c'', c)]
               = (None, [(''a'', a\<lparr>p_data := (p_data a)\<lparr>nd_elems := [1, 2]\<rparr>\<rparr>),
                         (''b'', b\<lparr>p_data := (p_data b)\<lparr>nd_elems := [3]\<rparr>\<rparr>),
                         (''c'', c)])"
    using assms
    by (simp add: set_values_from_array_def nd_array_def reshape_def set_data_def slice_def
        nd_size_def ndarray.equality)
  show ?thesis
    unfolding built using written by simp
qed

theorem scenario_witness:
  "grad_req param_a \<noteq> ''null'' \<and> nd_shape (p_data param_a) = [2]
   \<and> grad_req param_b \<noteq> ''null'' \<and> nd_shape (p_data param_b) = [1, 1]
   \<and> grad_req fixed_c = ''null'' \<and> nd_shape (p_data fixed_c) = [3]
   \<and> cast truncating_engine (nd_dtype (p_data param_a)) 1 = 1
   \<and> cast truncating_engine (nd_dtype (p_data param_a)) 2 = 2
   \<and> cast truncating_engine (nd_dtype (p_data param_b)) 3 = 3
   \<and> (\<exists>cv. init example_dict = Inr cv \<and> array_length cv = 3
          \<and> i_start cv = [0, 2] \<and> i_end cv = [2, 3]
          \<and> set_values_from_array truncating_engine cv [1, 2, 3] example_dict
              = (None, [(''a'', param_a\<lparr>p_data := (p_data param_a)\<lparr>nd_elems := [1, 2]\<rparr>\<rparr>),
                        (''b'', param_b\<lparr>p_data := (p_data param_b)\<lparr>nd_elems := [3]\<rparr>\<rparr>),
                        (''c'', fixed_c)]))"
proof -
  have h: "grad_req param_a \<noteq> ''null''" "nd_shape (p_data param_a) = [2]"
    "grad_req param_b \<noteq> ''null''" "nd_shape (p_data param_b) = [1, 1]"
    "grad_req fixed_c = ''null''" "nd_shape (p_data fixed_c) = [3]"
    "cast truncating_engine (nd_dtype (p_data param_a)) 1 = 1"
    "cast truncating_engine (nd_dtype (p_data param_a)) 2 = 2"
    "cast truncating_engine (nd_dtype (p_data param_b)) 3 = 3"
    by (simp_all add: example_defs truncating_engine_def is_integer_dtype_def)
  from scenario [OF h] h show ?thesis
    unfolding example_dict_def by blast
qed

section \<open>The optimization loop\<close>

lemma optimize_last:
  "optimize t f pd = (Inr r, pd') \<Longrightarrow>
     (evaluated t f pd = [] \<and> pd' = pd)
     \<or> (evaluated t f pd \<noteq> [] \<and> (\<exists>s y. f (last (evaluated t f pd)) s = (Inr y, pd')))"
proof (induction t arbitrary: pd)
  case (Return x_opt f_opt)
  then show ?case by simp
next
  case (Evaluate x k)
  from Evaluate.prems obtain l g pd1 where step: "f x pd = (Inr (l, g), pd1)"
    and rest: "optimize (k l g) f pd1 = (Inr r, pd')"
    by (auto split: prod.splits sum.splits)
  have IH: "(evaluated (k l g) f pd1 = [] \<and> pd' = pd1)
     \<or> (evaluated (k l g) f pd1 \<noteq> []
        \<and> (\<exists>s y. f (last (evaluated (k l g) f pd1)) s = (Inr y, pd')))"
    by (rule Evaluate.IH [OF _ _ rest]) auto
  show ?case
  proof (cases "evaluated (k l g) f pd1 = []")
    case True
    with IH step show ?thesis by auto
  next
    case False
    with IH step show ?thesis by auto
  qed
qed

lemma optimize_relabel:
  "optimize (relabel h t) f pd =
     (case optimize t f pd of
        (Inl e, pd') \<Rightarrow> (Inl e, pd')
      | (Inr (x_opt, f_opt), pd') \<Rightarrow> (Inr (h x_opt f_opt), pd'))"
proof (induction t arbitrary: pd)
  case (Return x_opt f_opt)
  then show ?case by (simp split: prod.splits)
next
  case (Evaluate x k)
  show ?case
  proof (cases "f x pd")
    case (Pair res pd1)
    show ?thesis
    proof (cases res)
      case (Inl e)
      with Pair show ?thesis by simp
    next
      case (Inr lg)
      obtain l g where "lg = (l, g)" by (cases lg)
      with Pair Inr Evaluate.IH [of "k l" "k l g" pd1] show ?thesis
        by simp
    qed
  qed
qed


lemma snd_set_enumerate: "snd ` set (enumerate n xs) = set xs"
  by (metis set_map map_snd_enumerate)

lemma set_values_loop_success:
  assumes "distinct ks"
    and "set_values_loop E c x (enumerate k (drop k ks)) pd = (None, pd')"
    and "k \<le> j" and "j < length ks"
  shows "map_option p_data (map_of pd' (ks ! j)) = Some (written_array E c x j)"
  using assms(2,3)
proof (induction "length ks - k" arbitrary: k pd)
  case 0
  then show ?case using assms(4) by simp
next
  case (Suc m)
  then have k: "k < length ks" by simp
  let ?key = "ks ! k"
  have drop: "drop k ks = ?key # drop (Suc k) ks"
    using k by (simp add: Cons_nth_drop_Suc)
  from Suc.prems(1) obtain val val' where val: "map_of pd ?key = Some val"
    and idx: "k < length (i_start c)" "k < length (i_end c)" "k < length (dtypes c)"
      "k < length (contexts c)" "k < length (shapes c)"
    and resh: "prod_list (shapes c ! k) = length (slice x (i_start c ! k) (i_end c ! k))"
    and sd: "set_data val (written_array E c x k) = Inr val'"
    and rest: "set_values_loop E c x (enumerate (Suc k) (drop (Suc k) ks))
                 (AList.update ?key val' pd) = (None, pd')"
    by (auto simp: drop reshape_def nd_array_def nd_size_def written_array_def
        split: option.splits if_splits sum.splits)
  have val': "p_data val' = written_array E c x k"
    using sd by (auto simp: set_data_def split: if_splits)
  show ?case
  proof (cases "j = k")
    case True
    have "?key \<notin> set (drop (Suc k) ks)"
      using assms(1) drop by (metis distinct.simps(2) distinct_drop)
    then have "?key \<notin> snd ` set (enumerate (Suc k) (drop (Suc k) ks))"
      by (simp add: snd_set_enumerate)
    from set_values_loop_other_keys [OF this, of E c x "AList.update ?key val' pd"] rest
    have "map_of pd' ?key = Some val'"
      by (simp add: update_conv')
    with val' True show ?thesis by simp
  next
    case False
    with Suc.prems(2) have j: "Suc k \<le> j" by simp
    have m: "m = length ks - Suc k" using Suc.hyps(2) by simp
    from Suc.hyps(1) [OF m rest j] show ?thesis .
  qed
qed

lemma f_df_success:
  assumes "f_df E c ex x s = (Inr y, pd')"
  shows "\<exists>s1. set_values_from_array E c x s = (None, s1) \<and> snd (ex s1) = pd'"
  using assms
  by (auto simp: f_df_def extract_parameter_gradients_as_array_def
      split: prod.splits option.splits sum.splits)

text \<open>
  C10. Take a dictionary with distinct keys and an executor that leaves the values of the
  parameters as they are (it fills gradient buffers), and let \<^verbatim>\<open>run\<close> complete. Then it
  returns \<^verbatim>\<open>None\<close>; if the optimizer never asked for the callback the dictionary is the
  one given; otherwise every parameter the converter names holds the array written from the
  last point at which the optimizer asked for the callback. Whatever point and value the
  optimizer returns at the end, the result of \<^verbatim>\<open>run\<close> and the dictionary are the same:
  the returned point is not written anywhere.
\<close>

theorem run_leaves_last_evaluated_point:
  assumes "distinct (map fst pd)"
    and "\<forall>s key. map_option p_data (map_of (snd (infr_executor s)) key)
                   = map_option p_data (map_of s key)"
    and "run E fmin infr_executor pd max_iter verbose = (Inr u, pd')"
  shows "\<exists>c x0. init pd = Inr c
           \<and> fst (extract_parameter_values_as_array E c pd) = Inr x0
           \<and> (let pts = evaluated (fmin x0 max_iter (if verbose then 1 else 0))
                          (f_df E c infr_executor) pd
              in (pts = [] \<and> pd' = pd)
                 \<or> (pts \<noteq> []
                    \<and> (\<forall>j < length (names c).
                          map_option p_data (map_of pd' (names c ! j))
                            = Some (written_array E c (last pts) j))))
           \<and> (\<forall>h. run E (\<lambda>x0 m d. relabel h (fmin x0 m d)) infr_executor pd max_iter verbose
                    = (Inr u, pd'))"
proof -
  from assms(3) obtain c where c: "init pd = Inr c"
    by (auto simp: run_def split: sum.splits)
  from assms(3) c obtain x0 where x0: "extract_parameter_values_as_array E c pd = (Inr x0, pd)"
    by (auto simp: run_def extract_parameter_values_as_array_def split: sum.splits prod.splits)
  let ?t = "fmin x0 max_iter (if verbose then 1 else 0)"
  let ?f = "f_df E c infr_executor"
  from assms(3) c x0 obtain r where opt: "optimize ?t ?f pd = (Inr r, pd')"
    by (auto simp: run_def split: sum.splits prod.splits)
  let ?pts = "evaluated ?t ?f pd"
  note f = init_fields [OF c]
  have dks: "distinct (names c)"
    using distinct_trainable_keys [OF assms(1)] by (simp add: f(6))
  have last: "(?pts = [] \<and> pd' = pd)
      \<or> (?pts \<noteq> [] \<and> (\<forall>j < length (names c).
             map_option p_data (map_of pd' (names c ! j))
               = Some (written_array E c (last ?pts) j)))"
  proof (cases "?pts = []")
    case True
    with optimize_last [OF opt] show ?thesis by simp
  next
    case False
    with optimize_last [OF opt] obtain s y where "?f (last ?pts) s = (Inr y, pd')"
      by blast
    from f_df_success [OF this] obtain s1 where
      s1: "set_values_from_array E c (last ?pts) s = (None, s1)" and ex: "snd (infr_executor s1) = pd'"
      by blast
    from s1 have loop: "set_values_loop E c (last ?pts) (enumerate 0 (drop 0 (names c))) s = (None, s1)"
      by (simp add: set_values_from_array_def split: if_splits)
    have "map_option p_data (map_of pd' (names c ! j)) = Some (written_array E c (last ?pts) j)"
      if "j < length (names c)" for j
      using set_values_loop_success [OF dks loop _ that] assms(2) ex by (metis le0)
    with False show ?thesis by simp
  qed
  have u: "u = ()" by simp
  have indep: "run E (\<lambda>x0 m d. relabel h (fmin x0 m d)) infr_executor pd max_iter verbose
                    = (Inr u, pd')" for h
    using c x0 opt by (simp add: run_def optimize_relabel split: prod.splits)
  show ?thesis
    using c x0 last indep by (simp add: Let_def)
qed

lemmas run_eval_defs =
  extract_parameter_values_as_array_def extract_parameter_gradients_as_array_def
  values_buffer_def gradients_buffer_def zeros_def slice_assign_def reshape_flat_def
  nd_size_def asnumpy_def set_values_from_array_def nd_array_def reshape_def set_data_def
  slice_def f_df_def example_executor_def example_fmin_def example_converter_def
  truncating_engine_def is_integer_dtype_def

lemma example_first_call:
  "f_df truncating_engine example_converter example_executor [5, 6, 4] example_dict
     = (Inr (0, [1 / 10, 2 / 10, 3 / 10]), example_dict)"
  by (simp add: run_eval_defs example_defs)

lemma example_second_call:
  "f_df truncating_engine example_converter example_executor [9, 9, 9] example_dict
     = (Inr (0, [1 / 10, 2 / 10, 3 / 10]), example_dict_after)"
  by (simp add: run_eval_defs example_defs example_dict_after_def)

lemma example_values:
  "extract_parameter_values_as_array truncating_engine example_converter example_dict
     = (Inr [5, 6, 4], example_dict)"
  by (simp add: run_eval_defs example_defs)

theorem run_leaves_last_evaluated_point_witness:
  "distinct (map fst example_dict)
   \<and> (\<lambda>s. snd (example_executor s)) = (\<lambda>s. s)
   \<and> run truncating_engine example_fmin example_executor example_dict 1000 False
       = (Inr (), example_dict_after)
   \<and> optimize (example_fmin [5, 6, 4] 1000 0)
        (f_df truncating_engine example_converter example_executor) example_dict
       = (Inr ([5, 6, 4], 0), example_dict_after)
   \<and> map_option p_data (map_of example_dict_after ''a'')
       = Some \<lparr>nd_shape = [2], nd_dtype = Float32, nd_ctx = Cpu 0, nd_elems = [9, 9]\<rparr>
   \<and> map_option p_data (map_of example_dict_after ''b'')
       = Some \<lparr>nd_shape = [1, 1], nd_dtype = Float64, nd_ctx = Gpu 0, nd_elems = [9]\<rparr>"
proof -
  let ?f = "f_df truncating_engine example_converter example_executor"
  have h1: "distinct (map fst example_dict)"
    by simp
  have h2: "\<forall>s key. map_option p_data (map_of (snd (example_executor s)) key)
                   = map_option p_data (map_of s key)"
    by (simp add: example_executor_def)
  have opt: "optimize (example_fmin [5, 6, 4] 1000 0) ?f example_dict
       = (Inr ([5, 6, 4], 0), example_dict_after)"
    by (simp add: example_fmin_def example_first_call example_second_call)
  have h3: "run truncating_engine example_fmin example_executor example_dict 1000 False
       = (Inr (), example_dict_after)"
    by (simp add: run_def init_example example_values opt)
  have pts: "evaluated (example_fmin [5, 6, 4] 1000 0) ?f example_dict = [[5, 6, 4], [9, 9, 9]]"
    by (simp add: example_fmin_def example_first_call example_second_call)
  from run_leaves_last_evaluated_point [OF h1 h2 h3]
  have all: "\<forall>j < length (names example_converter).
          map_option p_data (map_of example_dict_after (names example_converter ! j))
            = Some (written_array truncating_engine example_converter [9, 9, 9] j)"
    by (simp add: init_example example_values pts)
  have n: "names example_converter = [''a'', ''b'']"
    by (simp add: example_converter_def)
  from all [rule_format, of 0] all [rule_format, of 1]
  have "map_option p_data (map_of example_dict_after ''a'')
            = Some (written_array truncating_engine example_converter [9, 9, 9] 0)"
    and "map_option p_data (map_of example_dict_after ''b'')
            = Some (written_array truncating_engine example_converter [9, 9, 9] 1)"
    by (simp_all add: n)
  then have "map_option p_data (map_of example_dict_after ''a'')
       = Some \<lparr>nd_shape = [2], nd_dtype = Float32, nd_ctx = Cpu 0, nd_elems = [9, 9]\<rparr>"
    and "map_option p_data (map_of example_dict_after ''b'')
       = Some \<lparr>nd_shape = [1, 1], nd_dtype = Float64, nd_ctx = Gpu 0, nd_elems = [9]\<rparr>"
    by (simp_all add: example_converter_def written_array_def slice_def truncating_engine_def
        is_integer_dtype_def)
  then show ?thesis
    using h1 h3 opt by (simp add: example_executor_def)
qed

end
